theory Spec2Isabelle
  imports Main "HOL-Library.Word"
begin

unbundle bit_operations_syntax

section \<open>Model of the build system\<close>

text \<open>
  A shallow embedding of the EventChains build driver: the content hasher and the persistent
  cache (\<^verbatim>\<open>cache_metadata.c\<close>), the include scanner, the include resolver and the
  topological sorter (\<^verbatim>\<open>dependency_resolver.c\<close>), the toolchain driver
  (\<^verbatim>\<open>compile_events.c\<close>), the command line of \<^verbatim>\<open>ecbuild.c\<close>, and the
  pipeline layers (\<^verbatim>\<open>eventchains_middleware.c\<close>, \<^verbatim>\<open>eventchains_build.c\<close>).

  Conventions. A C string is a \<open>string\<close>; a file's bytes are a \<open>string\<close> too (a \<open>char\<close> is
  one byte). \<^verbatim>\<open>uint64_t\<close> and \<^verbatim>\<open>size_t\<close> counters are \<open>64 word\<close>, so \<open>+\<close> wraps as
  in C. A pointer into an array is the index of the slot. An array with a separate element
  count is the list of its slots in use: the count is the length of the list, and a slot
  beyond the count is never read by the code before it has been rewritten in full.
  A pointer argument that no caller of the repository passes as \<^verbatim>\<open>NULL\<close> is a plain value;
  where \<^verbatim>\<open>NULL\<close> does occur (the cache handed to the cache layer, the graph handed to the
  cache update) the argument is an \<open>option\<close>. Wall-clock durations (\<^verbatim>\<open>double\<close> fields
  \<^verbatim>\<open>compile_time\<close>, \<^verbatim>\<open>total_time\<close>, ...) are measurements that no function
  branches on; they are left out of the records.
\<close>

type_synonym path = string

subsection \<open>Configuration constants\<close>

definition MAX_SOURCE_FILES :: nat where "MAX_SOURCE_FILES = 1024"
definition MAX_INCLUDES_PER_FILE :: nat where "MAX_INCLUDES_PER_FILE = 256"
definition MAX_PATH_LENGTH :: nat where "MAX_PATH_LENGTH = 4096"
definition MAX_INCLUDE_PATHS :: nat where "MAX_INCLUDE_PATHS = 64"
definition MAX_CACHE_ENTRIES :: nat where "MAX_CACHE_ENTRIES = 2048"
definition MAX_DEPENDENCIES_PER_FILE :: nat where "MAX_DEPENDENCIES_PER_FILE = 128"
definition CACHE_VERSION :: "32 word" where "CACHE_VERSION = 1"
definition MAX_COMPILER_FLAGS :: nat where "MAX_COMPILER_FLAGS = 64"
definition MAX_COMMAND_LENGTH :: nat where "MAX_COMMAND_LENGTH = 8192"
definition FNV_OFFSET_BASIS :: "64 word" where "FNV_OFFSET_BASIS = 0xcbf29ce484222325"
definition FNV_PRIME :: "64 word" where "FNV_PRIME = 0x100000001b3"

subsection \<open>Source units and the dependency graph (\<^verbatim>\<open>dependency_resolver.h\<close>)\<close>

record SourceFile =
  path :: path
  include_list :: "path list"
  is_header :: bool
  visited :: bool
  in_stack :: bool
  sort_order :: int

record DependencyGraph =
  files :: "SourceFile list"
  include_paths :: "path list"

text \<open>\<^verbatim>\<open>dependency_graph_find_file\<close>: the first unit whose path equals the argument.\<close>

fun find_file_from :: "SourceFile list \<Rightarrow> path \<Rightarrow> nat \<Rightarrow> nat option" where
  "find_file_from [] p i = None"
| "find_file_from (f # fs) p i = (if path f = p then Some i else find_file_from fs p (Suc i))"

definition dependency_graph_find_file :: "DependencyGraph \<Rightarrow> path \<Rightarrow> nat option" where
  "dependency_graph_find_file graph p = find_file_from (files graph) p 0"

subsection \<open>Cache records (\<^verbatim>\<open>cache_metadata.h\<close>)\<close>

text \<open>
  \<open>dependencies\<close> pairs \<^verbatim>\<open>dependencies[i]\<close> with \<^verbatim>\<open>dependency_hashes[i]\<close> for
  \<^verbatim>\<open>i < dependency_count\<close>.
\<close>

record CacheEntry =
  source_path :: path
  object_path :: path
  source_hash :: "64 word"
  source_mtime :: int
  last_compiled :: int
  dependencies :: "(path \<times> 64 word) list"
  valid :: bool

record BuildCache =
  version :: "32 word"
  entries :: "CacheEntry list"
  cache_dir :: path
  project_dir :: path
  hits :: "64 word"
  misses :: "64 word"
  invalidations :: "64 word"

definition entry_count :: "BuildCache \<Rightarrow> nat" where
  "entry_count cache = length (entries cache)"

text \<open>
  What \<^verbatim>\<open>fread\<close> finds in \<^verbatim>\<open>cache.dat\<close>: the version word (\<open>None\<close>: the file is
  shorter), the entry count (\<open>None\<close>: the file ends before it), and the complete entry
  records that follow.
\<close>

record cache_file =
  cf_version :: "32 word option"
  cf_entry_count :: "nat option"
  cf_entries :: "CacheEntry list"

subsection \<open>The file system as the code observes it\<close>

text \<open>
  One observation per library call: \<open>fs_read\<close> is \<^verbatim>\<open>fopen\<close> for reading followed by
  reading to the end (\<open>None\<close>: \<^verbatim>\<open>fopen\<close> failed), \<open>fs_exists\<close> is
  \<^verbatim>\<open>access(path, F_OK) == 0\<close>, \<open>fs_regular\<close> is \<^verbatim>\<open>stat\<close> succeeding on a regular
  file, \<open>fs_mtime\<close> is \<^verbatim>\<open>st_mtime\<close> (\<open>None\<close>: \<^verbatim>\<open>stat\<close> failed),
  \<open>fs_cache_file\<close> is the binary image of a cache file, and \<open>fs_writable\<close> is
  \<^verbatim>\<open>fopen(path, "wb")\<close> succeeding. Directories are not observed by any function of
  the model, so \<^verbatim>\<open>mkdir\<close> leaves the observations as they are; whether a
  subprocess can write into a directory is part of the subprocess.
\<close>

record filesystem =
  fs_read :: "path \<Rightarrow> string option"
  fs_exists :: "path \<Rightarrow> bool"
  fs_regular :: "path \<Rightarrow> bool"
  fs_mtime :: "path \<Rightarrow> int option"
  fs_cache_file :: "path \<Rightarrow> cache_file option"
  fs_writable :: "path \<Rightarrow> bool"

subsection \<open>Content hasher (\<^verbatim>\<open>hash_file_content\<close>)\<close>

fun hash_bytes :: "64 word \<Rightarrow> string \<Rightarrow> 64 word" where
  "hash_bytes h [] = h"
| "hash_bytes h (b # bs) = hash_bytes ((h XOR of_char b) * FNV_PRIME) bs"

definition hash_file_content :: "filesystem \<Rightarrow> path \<Rightarrow> 64 word" where
  "hash_file_content fs p =
     (case fs_read fs p of
        None \<Rightarrow> 0
      | Some bytes \<Rightarrow> hash_bytes FNV_OFFSET_BASIS bytes)"

definition get_file_mtime :: "filesystem \<Rightarrow> path \<Rightarrow> int" where
  "get_file_mtime fs p = (case fs_mtime fs p of None \<Rightarrow> 0 | Some t \<Rightarrow> t)"

definition file_exists_cache :: "filesystem \<Rightarrow> path \<Rightarrow> bool" where
  "file_exists_cache fs p = fs_exists fs p"

subsection \<open>Cache management\<close>

datatype cache_message =
    Warning_failed_to_read_version
  | Warning_version_mismatch "32 word"
  | Warning_failed_to_read_entry_count
  | Warning_invalid_entry_count nat
  | Warning_failed_to_read_entries
  | Loaded_cache nat path
  | Warning_cache_full

text \<open>\<^verbatim>\<open>strncpy(dst, src, MAX_PATH_LENGTH - 1)\<close> followed by the terminating NUL.\<close>

definition copy_path :: "string \<Rightarrow> path" where
  "copy_path s = take (MAX_PATH_LENGTH - 1) s"

text \<open>
  The two \<^verbatim>\<open>snprintf\<close> calls that name the cache directory and the cache file, each
  into a buffer of \<^verbatim>\<open>MAX_PATH_LENGTH\<close> bytes.
\<close>

definition cache_dir_path :: "path \<Rightarrow> path" where
  "cache_dir_path dir = copy_path (dir @ ''/.eventchains'')"

definition cache_file_path :: "path \<Rightarrow> path" where
  "cache_file_path cdir = copy_path (cdir @ ''/'' @ ''cache.dat'')"

text \<open>
  \<^verbatim>\<open>build_cache_create\<close>: the fresh store, then the attempt to load \<^verbatim>\<open>cache.dat\<close>.
  The result carries the lines printed.
\<close>

definition build_cache_create :: "filesystem \<Rightarrow> path \<Rightarrow> cache_message list \<times> BuildCache" where
  "build_cache_create fs dir =
     (let cache = \<lparr> version = CACHE_VERSION, entries = [],
                     cache_dir = cache_dir_path dir,
                     project_dir = copy_path dir,
                     hits = 0, misses = 0, invalidations = 0 \<rparr>;
          cache_file = cache_file_path (cache_dir cache)
      in case fs_cache_file fs cache_file of
           None \<Rightarrow> ([], cache)
         | Some fp \<Rightarrow>
             (case cf_version fp of
                None \<Rightarrow> ([Warning_failed_to_read_version], cache)
              | Some v \<Rightarrow>
                  if v \<noteq> CACHE_VERSION then ([Warning_version_mismatch v], cache)
                  else
                    (case cf_entry_count fp of
                       None \<Rightarrow> ([Warning_failed_to_read_entry_count], cache)
                     | Some n \<Rightarrow>
                         if n > MAX_CACHE_ENTRIES then ([Warning_invalid_entry_count n], cache)
                         else if length (cf_entries fp) < n
                         then ([Warning_failed_to_read_entries], cache)
                         else ([Loaded_cache n cache_file],
                               cache\<lparr>entries := take n (cf_entries fp)\<rparr>))))"

definition build_cache_clear :: "BuildCache \<Rightarrow> BuildCache" where
  "build_cache_clear cache =
     cache\<lparr>entries := [], hits := 0, misses := 0, invalidations := 0\<rparr>"

subsection \<open>Cache queries\<close>

fun find_entry_from :: "CacheEntry list \<Rightarrow> path \<Rightarrow> nat \<Rightarrow> nat option" where
  "find_entry_from [] p i = None"
| "find_entry_from (e # es) p i =
     (if source_path e = p then Some i else find_entry_from es p (Suc i))"

definition build_cache_find :: "BuildCache \<Rightarrow> path \<Rightarrow> nat option" where
  "build_cache_find cache p = find_entry_from (entries cache) p 0"

text \<open>The loop over the recorded dependencies: \<open>True\<close> when it returns early with a miss.\<close>

fun dependency_changed :: "filesystem \<Rightarrow> (path \<times> 64 word) list \<Rightarrow> bool" where
  "dependency_changed fs [] = False"
| "dependency_changed fs ((dep, recorded) # rest) =
     (let dep_hash = hash_file_content fs dep
      in if dep_hash = 0 then dependency_changed fs rest
         else if dep_hash \<noteq> recorded then True
         else dependency_changed fs rest)"

definition build_cache_needs_recompilation ::
  "filesystem \<Rightarrow> BuildCache \<Rightarrow> SourceFile \<Rightarrow> path \<Rightarrow> bool \<times> BuildCache" where
  "build_cache_needs_recompilation fs cache source obj =
     (case build_cache_find cache (path source) of
        None \<Rightarrow> (True, cache\<lparr>misses := misses cache + 1\<rparr>)
      | Some i \<Rightarrow>
          (let entry = entries cache ! i
           in if \<not> valid entry then (True, cache\<lparr>misses := misses cache + 1\<rparr>)
              else
                (let current_hash = hash_file_content fs (path source)
                 in if current_hash = 0 then (True, cache\<lparr>misses := misses cache + 1\<rparr>)
                    else if current_hash \<noteq> source_hash entry
                    then (True, cache\<lparr>misses := misses cache + 1\<rparr>)
                    else if dependency_changed fs (dependencies entry)
                    then (True, cache\<lparr>misses := misses cache + 1\<rparr>)
                    else (False, cache\<lparr>hits := hits cache + 1\<rparr>))))"

text \<open>
  The decision rule in the words of the specification (section 4.I): the unit must be
  compiled when the entry is absent or invalid, the current source hash is 0 or differs from
  the stored one, or a recorded dependency has a nonzero current hash that differs from the
  recorded one. The entry of a unit is the first entry of the store whose source path is the
  path of the unit, and it is absent when the store holds no entry with that source path;
  this is said with \<^const>\<open>List.find\<close> over the entries, not with the lookup of the code.
\<close>

definition spec_miss_compile :: "filesystem \<Rightarrow> BuildCache \<Rightarrow> SourceFile \<Rightarrow> bool" where
  "spec_miss_compile fs cache source =
     (case List.find (\<lambda>entry. source_path entry = path source) (entries cache) of
        None \<Rightarrow> True
      | Some entry \<Rightarrow>
          \<not> valid entry
          \<or> hash_file_content fs (path source) = 0
          \<or> hash_file_content fs (path source) \<noteq> source_hash entry
          \<or> (\<exists>(dep, recorded) \<in> set (dependencies entry).
                hash_file_content fs dep \<noteq> 0 \<and> hash_file_content fs dep \<noteq> recorded))"

text \<open>
  \<^verbatim>\<open>build_cache_update\<close>: \<open>now\<close> is \<^verbatim>\<open>time(NULL)\<close>. The dependencies are re-captured
  from the unit's include list in the graph, up to the per-entry bound.
\<close>

definition capture_dependencies ::
  "filesystem \<Rightarrow> DependencyGraph option \<Rightarrow> path \<Rightarrow> (path \<times> 64 word) list" where
  "capture_dependencies fs graph src =
     (case graph of
        None \<Rightarrow> []
      | Some g \<Rightarrow>
          (case dependency_graph_find_file g src of
             None \<Rightarrow> []
           | Some k \<Rightarrow>
               map (\<lambda>inc. (copy_path inc, hash_file_content fs inc))
                   (take MAX_DEPENDENCIES_PER_FILE (include_list (files g ! k)))))"

definition build_cache_update ::
  "filesystem \<Rightarrow> int \<Rightarrow> BuildCache \<Rightarrow> path \<Rightarrow> path \<Rightarrow> DependencyGraph option
     \<Rightarrow> cache_message list \<times> BuildCache" where
  "build_cache_update fs now cache src obj graph =
     (let entry = \<lparr> source_path = copy_path src,
                     object_path = copy_path obj,
                     source_hash = hash_file_content fs src,
                     source_mtime = get_file_mtime fs src,
                     last_compiled = now,
                     dependencies = capture_dependencies fs graph src,
                     valid = True \<rparr>
      in case build_cache_find cache src of
           None \<Rightarrow>
             if entry_count cache \<ge> MAX_CACHE_ENTRIES then ([Warning_cache_full], cache)
             else ([], cache\<lparr>entries := entries cache @ [entry]\<rparr>)
         | Some i \<Rightarrow> ([], cache\<lparr>entries := (entries cache)[i := entry]\<rparr>))"

definition build_cache_invalidate :: "BuildCache \<Rightarrow> path \<Rightarrow> BuildCache" where
  "build_cache_invalidate cache src =
     (case build_cache_find cache src of
        None \<Rightarrow> cache
      | Some i \<Rightarrow>
          cache\<lparr>entries := (entries cache)[i := (entries cache ! i)\<lparr>valid := False\<rparr>],
                invalidations := invalidations cache + 1\<rparr>)"

text \<open>
  \<^verbatim>\<open>build_cache_invalidate_dependents\<close>: the loop over the entries, carrying the entries
  already passed and the invalidation counter.
\<close>

fun invalidate_dependents_loop ::
  "path \<Rightarrow> CacheEntry list \<Rightarrow> 64 word \<Rightarrow> CacheEntry list \<times> 64 word" where
  "invalidate_dependents_loop changed [] n = ([], n)"
| "invalidate_dependents_loop changed (e # es) n =
     (if valid e \<and> changed \<in> set (map fst (dependencies e))
      then (let (es', n') = invalidate_dependents_loop changed es (n + 1)
            in (e\<lparr>valid := False\<rparr> # es', n'))
      else (let (es', n') = invalidate_dependents_loop changed es n
            in (e # es', n')))"

definition build_cache_invalidate_dependents ::
  "BuildCache \<Rightarrow> path \<Rightarrow> DependencyGraph option \<Rightarrow> BuildCache" where
  "build_cache_invalidate_dependents cache changed graph =
     (case graph of
        None \<Rightarrow> cache
      | Some g \<Rightarrow>
          (let (es, n) = invalidate_dependents_loop changed (entries cache) (invalidations cache)
           in cache\<lparr>entries := es, invalidations := n\<rparr>))"

subsection \<open>Topological sorter (\<^verbatim>\<open>dependency_resolver.c\<close>)\<close>

text \<open>
  A \<^verbatim>\<open>SourceFile *\<close> is the index of the unit in \<open>files\<close>; a \<^verbatim>\<open>BuildOrder\<close> is the
  list of the pointers stored so far. The traversal marks live in the units, so the graph is
  threaded through the traversal.
\<close>

type_synonym BuildOrder = "nat list"

definition enter_file :: "DependencyGraph \<Rightarrow> nat \<Rightarrow> DependencyGraph" where
  "enter_file graph file =
     graph\<lparr>files := (files graph)[file := (files graph ! file)\<lparr>visited := True, in_stack := True\<rparr>]\<rparr>"

definition leave_file :: "DependencyGraph \<Rightarrow> nat \<Rightarrow> nat \<Rightarrow> DependencyGraph" where
  "leave_file graph file pos =
     graph\<lparr>files := (files graph)[file := (files graph ! file)\<lparr>in_stack := False,
                                                               sort_order := int pos\<rparr>]\<rparr>"

text \<open>The trace written by \<^verbatim>\<open>snprintf(cycle_path, path_size, "%s -> %s", ...)\<close>.\<close>

definition cycle_trace :: "nat \<Rightarrow> path \<Rightarrow> path \<Rightarrow> string" where
  "cycle_trace path_size a b = take (path_size - 1) (a @ '' -> '' @ b)"

text \<open>
  \<^verbatim>\<open>topological_sort_dfs\<close> and its loop over the includes of \<open>file\<close>. The C function
  recurses only into a unit that is not yet visited and marks it first, so its depth is at
  most the number of units; the model carries that bound as fuel, \<open>None\<close> means the fuel ran
  out, and lemma \<open>topological_sort_total\<close> shows that with the fuel the sorter gives this
  never happens. \<open>Inl trace\<close> is the return value \<^verbatim>\<open>false\<close> with the cycle trace,
  \<open>Inr\<close> is \<^verbatim>\<open>true\<close> with the marks and the order as they are left.
\<close>

fun topological_sort_dfs ::
    "nat \<Rightarrow> nat \<Rightarrow> DependencyGraph \<Rightarrow> nat \<Rightarrow> BuildOrder
       \<Rightarrow> (string + DependencyGraph \<times> BuildOrder) option"
  and visit_includes ::
    "nat \<Rightarrow> nat \<Rightarrow> DependencyGraph \<Rightarrow> nat \<Rightarrow> path list \<Rightarrow> BuildOrder
       \<Rightarrow> (string + DependencyGraph \<times> BuildOrder) option"
where
  "topological_sort_dfs 0 path_size graph file order = None"
| "topological_sort_dfs (Suc fuel) path_size graph file order =
     (case visit_includes fuel path_size (enter_file graph file) file
             (include_list (files graph ! file)) order of
        None \<Rightarrow> None
      | Some (Inl trace) \<Rightarrow> Some (Inl trace)
      | Some (Inr (graph', order')) \<Rightarrow>
          Some (Inr (leave_file graph' file (length order'), order' @ [file])))"
| "visit_includes fuel path_size graph file [] order = Some (Inr (graph, order))"
| "visit_includes fuel path_size graph file (inc # rest) order =
     (case dependency_graph_find_file graph inc of
        None \<Rightarrow> visit_includes fuel path_size graph file rest order
      | Some dep \<Rightarrow>
          if in_stack (files graph ! dep)
          then Some (Inl (cycle_trace path_size (path (files graph ! file))
                                              (path (files graph ! dep))))
          else if \<not> visited (files graph ! dep)
          then (case topological_sort_dfs fuel path_size graph dep order of
                  None \<Rightarrow> None
                | Some (Inl trace) \<Rightarrow> Some (Inl trace)
                | Some (Inr (graph', order')) \<Rightarrow>
                    visit_includes fuel path_size graph' file rest order')
          else visit_includes fuel path_size graph file rest order)"

definition reset_marks :: "DependencyGraph \<Rightarrow> DependencyGraph" where
  "reset_marks graph =
     graph\<lparr>files := map (\<lambda>f. f\<lparr>visited := False, in_stack := False, sort_order := -1\<rparr>)
                         (files graph)\<rparr>"

text \<open>
  One pass of \<^verbatim>\<open>dependency_graph_topological_sort\<close> over the indices \<open>is\<close>:
  \<open>processing_headers\<close> selects the units that may be roots in this pass.
\<close>

fun sort_pass ::
    "bool \<Rightarrow> nat list \<Rightarrow> DependencyGraph \<Rightarrow> BuildOrder
       \<Rightarrow> (string + DependencyGraph \<times> BuildOrder) option" where
  "sort_pass processing_headers [] graph order = Some (Inr (graph, order))"
| "sort_pass processing_headers (i # is) graph order =
     (if is_header (files graph ! i) \<noteq> processing_headers
      then sort_pass processing_headers is graph order
      else if visited (files graph ! i)
      then sort_pass processing_headers is graph order
      else (case topological_sort_dfs (length (files graph)) (MAX_PATH_LENGTH * 2)
                   graph i order of
              None \<Rightarrow> None
            | Some (Inl trace) \<Rightarrow> Some (Inl trace)
            | Some (Inr (graph', order')) \<Rightarrow> sort_pass processing_headers is graph' order'))"

text \<open>
  \<^verbatim>\<open>dependency_graph_topological_sort\<close>: \<open>Inl trace\<close> is
  \<^verbatim>\<open>DEP_ERROR_CIRCULAR_DEPENDENCY\<close> with the trace printed on the error stream,
  \<open>Inr\<close> is \<^verbatim>\<open>DEP_SUCCESS\<close> with the build order.
\<close>

definition dependency_graph_topological_sort ::
    "DependencyGraph \<Rightarrow> (string + DependencyGraph \<times> BuildOrder) option" where
  "dependency_graph_topological_sort graph =
     (case sort_pass True [0 ..< length (files graph)] (reset_marks graph) [] of
        None \<Rightarrow> None
      | Some (Inl trace) \<Rightarrow> Some (Inl trace)
      | Some (Inr (graph', order')) \<Rightarrow>
          sort_pass False [0 ..< length (files graph')] graph' order')"


subsection \<open>Include scanner and include resolver (\<^verbatim>\<open>dependency_resolver.c\<close>)\<close>

datatype DependencyErrorCode =
    DEP_SUCCESS
  | DEP_ERROR_NULL_POINTER
  | DEP_ERROR_FILE_NOT_FOUND
  | DEP_ERROR_PARSE_FAILED
  | DEP_ERROR_CIRCULAR_DEPENDENCY
  | DEP_ERROR_TOO_MANY_FILES
  | DEP_ERROR_TOO_MANY_INCLUDES
  | DEP_ERROR_OUT_OF_MEMORY
  | DEP_ERROR_INVALID_PATH
  | DEP_ERROR_TOPOLOGICAL_SORT_FAILED

text \<open>\<^verbatim>\<open>file_exists\<close> of the resolver: \<^verbatim>\<open>stat\<close> succeeds on a regular file.\<close>

definition file_exists :: "filesystem \<Rightarrow> path \<Rightarrow> bool" where
  "file_exists fs p = fs_regular fs p"

text \<open>\<^verbatim>\<open>snprintf(dst, n, ...)\<close>: the formatted text cut to \<open>n - 1\<close> bytes.\<close>

definition snprintf :: "nat \<Rightarrow> string \<Rightarrow> string" where
  "snprintf n s = take (n - 1) s"

text \<open>\<^verbatim>\<open>strrchr(s, c)\<close>: the index of the last occurrence of \<open>c\<close>.\<close>

fun strrchr_from :: "string \<Rightarrow> char \<Rightarrow> nat \<Rightarrow> nat option \<Rightarrow> nat option" where
  "strrchr_from [] c i found = found"
| "strrchr_from (x # xs) c i found =
     strrchr_from xs c (Suc i) (if x = c then Some i else found)"

definition strrchr :: "string \<Rightarrow> char \<Rightarrow> nat option" where
  "strrchr s c = strrchr_from s c 0 None"

text \<open>The loop of \<^verbatim>\<open>resolve_include\<close> over the registered include roots.\<close>

fun try_include_paths :: "filesystem \<Rightarrow> path list \<Rightarrow> string \<Rightarrow> nat \<Rightarrow> path option" where
  "try_include_paths fs [] include_name path_size = None"
| "try_include_paths fs (root # roots) include_name path_size =
     (let resolved_path = snprintf path_size (root @ ''/'' @ include_name)
      in if file_exists fs resolved_path then Some resolved_path
         else try_include_paths fs roots include_name path_size)"

text \<open>
  The first block of \<^verbatim>\<open>resolve_include\<close>: the search next to the referencing file,
  guarded by \<^verbatim>\<open>include_name[0] == '"'\<close>.
\<close>

definition try_referencing_directory ::
    "filesystem \<Rightarrow> string \<Rightarrow> path \<Rightarrow> nat \<Rightarrow> path option" where
  "try_referencing_directory fs include_name referencing_file path_size =
     (if include_name \<noteq> [] \<and> hd include_name = CHR 0x22
      then (let dir = copy_path referencing_file
            in case strrchr dir CHR ''/'' of
                 None \<Rightarrow> None
               | Some last_slash \<Rightarrow>
                   (let resolved_path =
                          snprintf path_size (take (Suc last_slash) dir @ include_name)
                    in if file_exists fs resolved_path then Some resolved_path else None))
      else None)"

definition resolve_include ::
    "filesystem \<Rightarrow> DependencyGraph \<Rightarrow> string \<Rightarrow> path \<Rightarrow> nat \<Rightarrow> path option" where
  "resolve_include fs graph include_name referencing_file path_size =
     (case try_referencing_directory fs include_name referencing_file path_size of
        Some resolved_path \<Rightarrow> Some resolved_path
      | None \<Rightarrow>
          (case try_include_paths fs (include_paths graph) include_name path_size of
             Some resolved_path \<Rightarrow> Some resolved_path
           | None \<Rightarrow>
               if file_exists fs include_name
               then Some (take (path_size - 1) include_name)
               else None))"

text \<open>
  \<^verbatim>\<open>fgets(line, 1024, fp)\<close> in a loop: a line ends after a newline or after 1023 bytes.
  \<open>c_str\<close> is the line as the string functions see it, up to the first NUL.
\<close>

fun read_lines :: "string \<Rightarrow> string \<Rightarrow> string list" where
  "read_lines line [] = (if line = [] then [] else [line])"
| "read_lines line (c # cs) =
     (if c = CHR 0x0A \<or> length line = 1022
      then (line @ [c]) # read_lines [] cs
      else read_lines (line @ [c]) cs)"

definition c_str :: "string \<Rightarrow> string" where
  "c_str s = takeWhile (\<lambda>c. c \<noteq> CHR 0x00) s"

text \<open>\<^verbatim>\<open>isspace\<close> in the C locale.\<close>

definition isspace :: "char \<Rightarrow> bool" where
  "isspace c \<longleftrightarrow> c \<in> {CHR '' '', CHR 0x09, CHR 0x0A, CHR 0x0B, CHR 0x0C, CHR 0x0D}"

text \<open>
  The body of the line loop of \<^verbatim>\<open>parse_includes\<close> up to the call of the resolver:
  for a line that is an include directive, the opening character (quote or angle bracket)
  and the include name. The opening character is skipped before the name is copied, and the
  copy stops before the closing one.
\<close>

definition scan_include_directive :: "string \<Rightarrow> (char \<times> string) option" where
  "scan_include_directive line =
     (case dropWhile isspace (c_str line) of
        [] \<Rightarrow> None
      | c # p1 \<Rightarrow>
          if c \<noteq> CHR ''#'' then None
          else (let p2 = dropWhile isspace p1
                in if take 7 p2 \<noteq> ''include'' then None
                   else (case dropWhile isspace (drop 7 p2) of
                           [] \<Rightarrow> None
                         | opening # p3 \<Rightarrow>
                             if opening = CHR 0x22 \<or> opening = CHR ''<''
                             then (let end_char = (if opening = CHR 0x22 then CHR 0x22
                                                   else CHR ''>'')
                                   in Some (opening,
                                            take (MAX_PATH_LENGTH - 1)
                                              (takeWhile (\<lambda>c. c \<noteq> end_char) p3)))
                             else None)))"

text \<open>
  \<^verbatim>\<open>source_file_add_include\<close> and the line loop of \<^verbatim>\<open>parse_includes\<close>: the
  resolver receives the include name and the path of the referencing file, not the opening
  character. An allocation failure of \<^verbatim>\<open>strdup\<close> is not modelled.
\<close>

definition source_file_add_include :: "SourceFile \<Rightarrow> path \<Rightarrow> DependencyErrorCode + SourceFile" where
  "source_file_add_include file include_path =
     (if length (include_list file) \<ge> MAX_INCLUDES_PER_FILE then Inl DEP_ERROR_TOO_MANY_INCLUDES
      else Inr (file\<lparr>include_list := include_list file @ [include_path]\<rparr>))"

fun parse_lines ::
    "filesystem \<Rightarrow> DependencyGraph \<Rightarrow> string list \<Rightarrow> SourceFile
       \<Rightarrow> DependencyErrorCode + SourceFile" where
  "parse_lines fs graph [] file = Inr file"
| "parse_lines fs graph (line # rest) file =
     (case scan_include_directive line of
        None \<Rightarrow> parse_lines fs graph rest file
      | Some (opening, include_name) \<Rightarrow>
          (case resolve_include fs graph include_name (path file) MAX_PATH_LENGTH of
             None \<Rightarrow> parse_lines fs graph rest file
           | Some resolved \<Rightarrow>
               (case source_file_add_include file resolved of
                  Inl err \<Rightarrow> Inl err
                | Inr file' \<Rightarrow> parse_lines fs graph rest file')))"

definition parse_includes ::
    "filesystem \<Rightarrow> DependencyGraph \<Rightarrow> SourceFile \<Rightarrow> DependencyErrorCode + SourceFile" where
  "parse_includes fs graph file =
     (case fs_read fs (path file) of
        None \<Rightarrow> Inl DEP_ERROR_FILE_NOT_FOUND
      | Some text \<Rightarrow> parse_lines fs graph (read_lines [] text) file)"


subsection \<open>Build configuration (\<^verbatim>\<open>compile_events.c\<close>)\<close>

datatype CompilerType = COMPILER_AUTO | COMPILER_GCC | COMPILER_CLANG | COMPILER_MSVC

text \<open>
  \<^verbatim>\<open>BuildConfig\<close>. The include directories of the configuration are named
  \<open>config_include_paths\<close> to keep them apart from the include roots of the graph.
\<close>

record BuildConfig =
  compiler :: CompilerType
  compiler_path :: "string option"
  cflags :: "string list"
  ldflags :: "string list"
  config_include_paths :: "path list"
  library_paths :: "path list"
  libraries :: "string list"
  output_dir :: path
  output_binary :: string
  verbose :: bool
  debug :: bool
  optimize :: bool
  parallel_jobs :: int

text \<open>
  The \<^verbatim>\<open>build_config_add_*\<close> functions return whether the item was stored; the model
  returns the configuration, unchanged when the array is full.
\<close>

definition build_config_add_cflag :: "BuildConfig \<Rightarrow> string \<Rightarrow> BuildConfig" where
  "build_config_add_cflag config flag =
     (if length (cflags config) \<ge> MAX_COMPILER_FLAGS then config
      else config\<lparr>cflags := cflags config @ [flag]\<rparr>)"

definition build_config_add_include_path :: "BuildConfig \<Rightarrow> path \<Rightarrow> BuildConfig" where
  "build_config_add_include_path config p =
     (if length (config_include_paths config) \<ge> MAX_INCLUDE_PATHS then config
      else config\<lparr>config_include_paths := config_include_paths config @ [p]\<rparr>)"

definition build_config_set_output_dir :: "BuildConfig \<Rightarrow> path \<Rightarrow> BuildConfig" where
  "build_config_set_output_dir config p = config\<lparr>output_dir := p\<rparr>"

definition build_config_set_output_binary :: "BuildConfig \<Rightarrow> string \<Rightarrow> BuildConfig" where
  "build_config_set_output_binary config name = config\<lparr>output_binary := name\<rparr>"

text \<open>
  \<^verbatim>\<open>build_config_create\<close>: the defaults, then the default flags. The optimisation flag
  is added here, while \<open>optimize\<close> still has its default \<open>True\<close>.
\<close>

definition build_config_create :: BuildConfig where
  "build_config_create =
     (let config = \<lparr> compiler = COMPILER_AUTO, compiler_path = None, cflags = [],
                      ldflags = [], config_include_paths = [], library_paths = [],
                      libraries = [], output_dir = ''build'', output_binary = ''program'',
                      verbose = False, debug = False, optimize = True, parallel_jobs = 1 \<rparr>;
          config = build_config_add_cflag config ''-Wall''
      in if optimize config then build_config_add_cflag config ''-O2'' else config)"

subsection \<open>Command line of \<^verbatim>\<open>ecbuild\<close> (\<^verbatim>\<open>ecbuild.c\<close>)\<close>

record Arguments =
  arg_source_dir :: path
  arg_output_dir :: path
  arg_output_binary :: string
  arg_exclude_dirs :: "string list"
  arg_verbose :: bool
  arg_debug :: bool
  arg_no_optimize :: bool
  arg_clean :: bool
  arg_help :: bool
  arg_version :: bool
  arg_parallel_jobs :: int

text \<open>
  \<^verbatim>\<open>atoi\<close> of the C library is \<^verbatim>\<open>(int) strtol(s, NULL, 10)\<close>: leading white space,
  an optional sign, then decimal digits; \<^verbatim>\<open>strtol\<close> clamps the value to the range of
  \<^verbatim>\<open>long\<close> (64 bits), and the conversion to \<^verbatim>\<open>int\<close> keeps the low 32 bits as a
  two's-complement number.
\<close>

definition is_digit :: "char \<Rightarrow> bool" where
  "is_digit c \<longleftrightarrow> (48::nat) \<le> of_char c \<and> (of_char c :: nat) \<le> 57"

fun atoi_digits :: "int \<Rightarrow> string \<Rightarrow> int" where
  "atoi_digits acc [] = acc"
| "atoi_digits acc (c # cs) =
     (if is_digit c then atoi_digits (acc * 10 + (of_char c - 48)) cs else acc)"

definition strtol :: "string \<Rightarrow> int" where
  "strtol s =
     (let v = (case dropWhile isspace s of
                 [] \<Rightarrow> 0
               | c # cs \<Rightarrow>
                   if c = CHR ''-'' then - atoi_digits 0 cs
                   else if c = CHR ''+'' then atoi_digits 0 cs
                   else atoi_digits 0 (c # cs))
      in max (- (2 ^ 63)) (min (2 ^ 63 - 1) v))"

definition atoi :: "string \<Rightarrow> int" where
  "atoi s = sint (word_of_int (strtol s) :: 32 word)"

text \<open>
  \<^verbatim>\<open>strtok(list, ",")\<close> in a loop: the non-empty pieces between commas. Each piece is
  then trimmed of blanks and tabs at both ends.
\<close>

fun strtok_all :: "char \<Rightarrow> string \<Rightarrow> string \<Rightarrow> string list" where
  "strtok_all delim token [] = (if token = [] then [] else [token])"
| "strtok_all delim token (c # cs) =
     (if c = delim
      then (if token = [] then strtok_all delim [] cs else token # strtok_all delim [] cs)
      else strtok_all delim (token @ [c]) cs)"

definition is_blank :: "char \<Rightarrow> bool" where
  "is_blank c \<longleftrightarrow> c = CHR '' '' \<or> c = CHR 0x09"

definition trim_token :: "string \<Rightarrow> string" where
  "trim_token token = rev (dropWhile is_blank (rev (dropWhile is_blank token)))"

definition default_arguments :: Arguments where
  "default_arguments =
     \<lparr> arg_source_dir = ''.'', arg_output_dir = ''build'', arg_output_binary = ''program'',
       arg_exclude_dirs = [], arg_verbose = False, arg_debug = False,
       arg_no_optimize = False, arg_clean = False, arg_help = False, arg_version = False,
       arg_parallel_jobs = 1 \<rparr>"

text \<open>
  The loop of \<^verbatim>\<open>parse_arguments\<close> over \<^verbatim>\<open>argv[1..]\<close>; \<open>None\<close> is the return
  value \<^verbatim>\<open>false\<close> (an option without its argument, or an unknown option).
\<close>

fun parse_arguments_loop :: "string list \<Rightarrow> Arguments \<Rightarrow> Arguments option" where
  "parse_arguments_loop [] args = Some args"
| "parse_arguments_loop (a # rest) args =
     (if a = ''-h'' \<or> a = ''--help'' then parse_arguments_loop rest (args\<lparr>arg_help := True\<rparr>)
      else if a = ''-V'' \<or> a = ''--version''
      then parse_arguments_loop rest (args\<lparr>arg_version := True\<rparr>)
      else if a = ''-v'' \<or> a = ''--verbose''
      then parse_arguments_loop rest (args\<lparr>arg_verbose := True\<rparr>)
      else if a = ''-d'' \<or> a = ''--debug''
      then parse_arguments_loop rest (args\<lparr>arg_debug := True\<rparr>)
      else if a = ''-O0'' \<or> a = ''--no-optimize''
      then parse_arguments_loop rest (args\<lparr>arg_no_optimize := True\<rparr>)
      else if a = ''-c'' \<or> a = ''--clean''
      then parse_arguments_loop rest (args\<lparr>arg_clean := True\<rparr>)
      else if a = ''-o'' \<or> a = ''--output''
      then (case rest of
              [] \<Rightarrow> None
            | v # rest' \<Rightarrow> parse_arguments_loop rest' (args\<lparr>arg_output_binary := v\<rparr>))
      else if a = ''-b'' \<or> a = ''--build-dir''
      then (case rest of
              [] \<Rightarrow> None
            | v # rest' \<Rightarrow> parse_arguments_loop rest' (args\<lparr>arg_output_dir := v\<rparr>))
      else if a = ''-j'' \<or> a = ''--jobs''
      then (case rest of
              [] \<Rightarrow> None
            | v # rest' \<Rightarrow>
                parse_arguments_loop rest'
                  (args\<lparr>arg_parallel_jobs := (if atoi v < 1 then 1 else atoi v)\<rparr>))
      else if a = ''-e'' \<or> a = ''--exclude''
      then (case rest of
              [] \<Rightarrow> None
            | v # rest' \<Rightarrow>
                parse_arguments_loop rest'
                  (args\<lparr>arg_exclude_dirs := map trim_token (strtok_all CHR '','' [] v)\<rparr>))
      else if a = [] \<or> hd a \<noteq> CHR ''-''
      then parse_arguments_loop rest (args\<lparr>arg_source_dir := a\<rparr>)
      else None)"

definition parse_arguments :: "string list \<Rightarrow> Arguments option" where
  "parse_arguments argv = parse_arguments_loop (tl argv) default_arguments"

text \<open>
  The part of \<^verbatim>\<open>main\<close> that creates and configures the build configuration
  (\<^verbatim>\<open>ecbuild.c\<close>, from \<^verbatim>\<open>build_config_create()\<close> to the debug flag). The field
  \<open>optimize\<close> is assigned from the command line; the flag list is only ever appended to.
\<close>

definition main_build_config :: "Arguments \<Rightarrow> BuildConfig" where
  "main_build_config args =
     (let config = build_config_create;
          config = build_config_set_output_dir config (arg_output_dir args);
          config = build_config_set_output_binary config (arg_output_binary args);
          config = config\<lparr>verbose := arg_verbose args, debug := arg_debug args,
                          optimize := \<not> arg_no_optimize args,
                          parallel_jobs := arg_parallel_jobs args\<rparr>;
          config = build_config_add_include_path config (arg_source_dir args)
      in if arg_debug args then build_config_add_cflag config ''-g'' else config)"

subsection \<open>Toolchain driver (\<^verbatim>\<open>compile_events.c\<close>)\<close>

text \<open>
  A subprocess is a function of the command string and the file system: how it ended, what
  it printed, and the file system it leaves.
\<close>

datatype process_end = Popen_failed | Exited int | Signalled

type_synonym shell = "string \<Rightarrow> filesystem \<Rightarrow> process_end \<times> string \<times> filesystem"

record CompileResult =
  success :: bool
  object_file :: "path option"
  error_output :: "string option"
  exit_code :: int

text \<open>
  \<^verbatim>\<open>create_build_dir_path\<close>, and the two steps of \<^verbatim>\<open>build_project\<close> before the
  compile loop: the compiler found by auto-detection (\<open>found\<close>: the first of gcc, clang, cl
  that the platform knows, if any) and the build directory made relative to the source
  directory.
\<close>

definition create_build_dir_path :: "path \<Rightarrow> path \<Rightarrow> nat \<Rightarrow> path" where
  "create_build_dir_path source_dir build_dir_name dest_size =
     (if (build_dir_name \<noteq> [] \<and> hd build_dir_name = CHR ''/'')
         \<or> (length build_dir_name \<ge> 2 \<and> build_dir_name ! 1 = CHR '':'')
      then snprintf dest_size build_dir_name
      else snprintf dest_size (source_dir @ ''/'' @ build_dir_name))"

definition build_config_auto_detect_compiler ::
    "(CompilerType \<times> string) option \<Rightarrow> BuildConfig \<Rightarrow> BuildConfig option" where
  "build_config_auto_detect_compiler found config =
     (case found of
        None \<Rightarrow> None
      | Some (kind, name) \<Rightarrow> Some (config\<lparr>compiler := kind, compiler_path := Some name\<rparr>))"

definition build_project_config ::
    "(CompilerType \<times> string) option \<Rightarrow> BuildConfig \<Rightarrow> path \<Rightarrow> BuildConfig option" where
  "build_project_config found config source_dir =
     (case (if compiler config = COMPILER_AUTO \<or> compiler_path config = None
            then build_config_auto_detect_compiler found config
            else Some config) of
        None \<Rightarrow> None
      | Some config' \<Rightarrow>
          Some (config'\<lparr>output_dir :=
                  create_build_dir_path source_dir (output_dir config') MAX_PATH_LENGTH\<rparr>))"

text \<open>
  \<^verbatim>\<open>get_object_file_path\<close>: the base name of the source path with its last extension
  replaced by \<^verbatim>\<open>.o\<close>, under the output directory.
\<close>

definition get_object_file_path :: "path \<Rightarrow> path \<Rightarrow> nat \<Rightarrow> path" where
  "get_object_file_path src_path odir dest_size =
     (let filename =
            (case strrchr src_path CHR ''/'' of
               Some k \<Rightarrow> drop (Suc k) src_path
             | None \<Rightarrow>
                 (case strrchr src_path CHR 0x5C of
                    Some k \<Rightarrow> drop (Suc k) src_path
                  | None \<Rightarrow> src_path));
          obj_name = take 511 filename;
          obj_name = (case strrchr obj_name CHR ''.'' of
                        Some k \<Rightarrow> take k obj_name @ ''.o''
                      | None \<Rightarrow> obj_name @ ''.o'')
      in snprintf dest_size (odir @ ''/'' @ obj_name))"

text \<open>The time-stamp test \<^verbatim>\<open>needs_recompilation\<close> of the toolchain driver.\<close>

definition needs_recompilation :: "filesystem \<Rightarrow> path \<Rightarrow> path \<Rightarrow> bool" where
  "needs_recompilation fs source_file obj =
     (case fs_mtime fs obj of
        None \<Rightarrow> True
      | Some obj_mtime \<Rightarrow>
          (case fs_mtime fs source_file of
             None \<Rightarrow> True
           | Some src_mtime \<Rightarrow> src_mtime > obj_mtime))"

text \<open>
  The command buffer of \<^verbatim>\<open>MAX_COMMAND_LENGTH\<close> bytes, filled by
  \<^verbatim>\<open>pos += snprintf(command + pos, sizeof(command) - pos, ...)\<close>: the state is the sum
  \<open>pos\<close> of the lengths asked for and the text stored. A call made when \<open>pos\<close> equals the
  size of the buffer passes the size 0 and stores nothing, so the command stays cut. A call
  made when \<open>pos\<close> exceeds the size of the buffer points outside it; that is \<open>None\<close>.
\<close>

definition command_append :: "(nat \<times> string) option \<Rightarrow> string \<Rightarrow> (nat \<times> string) option" where
  "command_append st piece =
     (case st of
        None \<Rightarrow> None
      | Some (pos, buf) \<Rightarrow>
          if pos > MAX_COMMAND_LENGTH then None
          else Some (pos + length piece,
                     buf @ take (MAX_COMMAND_LENGTH - pos - 1) piece))"

definition compile_command :: "BuildConfig \<Rightarrow> SourceFile \<Rightarrow> path \<Rightarrow> string option" where
  "compile_command config source obj =
     (let cc = (case compiler_path config of Some p \<Rightarrow> p | None \<Rightarrow> ''gcc'');
          st = command_append (Some (0, [])) (cc @ '' -c '' @ path source @ '' -o '' @ obj);
          st = foldl (\<lambda>st dir. command_append st ('' -I'' @ dir)) st
                     (config_include_paths config);
          st = foldl (\<lambda>st flag. command_append st ('' '' @ flag)) st (cflags config)
      in map_option snd st)"

text \<open>
  \<^verbatim>\<open>fgets(s, k + 1, fp)\<close> takes at most \<open>k\<close> bytes of the stream, up to and including
  the first newline.
\<close>

fun fgets_line :: "nat \<Rightarrow> string \<Rightarrow> string" where
  "fgets_line 0 stream = []"
| "fgets_line (Suc k) [] = []"
| "fgets_line (Suc k) (c # cs) = (if c = CHR 0x0A then [c] else c # fgets_line k cs)"

text \<open>
  The capture loop of \<^verbatim>\<open>execute_command\<close>:
  \<^verbatim>\<open>while (fgets(output + total_read, output_size - total_read, fp))\<close> with
  \<^verbatim>\<open>total_read = strlen(output)\<close> after each line. \<open>buf\<close> is the text of the buffer up
  to its first NUL, \<open>stream\<close> what the command has still to print. A line that holds a NUL
  byte is kept up to that byte, and the next line is written from there.
\<close>

function capture_output :: "nat \<Rightarrow> string \<Rightarrow> string \<Rightarrow> string" where
  "capture_output output_size buf stream =
     (if stream = [] then buf
      else
        (let line = fgets_line (output_size - length buf - 1) stream;
             buf' = buf @ c_str line
         in if length buf' \<ge> output_size - 1 then buf'
            else capture_output output_size buf' (drop (length line) stream)))"
  by pat_completeness auto

termination capture_output
proof (relation "measure (\<lambda>(output_size, buf, stream). length stream)")
  show "wf (measure (\<lambda>(output_size, buf, stream). length stream))"
    by simp
next
  fix output_size :: nat and buf stream line buf' :: string
  assume s: "stream \<noteq> []"
     and l: "line = fgets_line (output_size - length buf - 1) stream"
     and b: "buf' = buf @ c_str line"
     and n: "\<not> output_size - 1 \<le> length buf'"
  from b n have "0 < output_size - length buf - 1"
    by simp
  with s l have "line \<noteq> []"
    by (cases "output_size - length buf - 1"; cases stream) auto
  with s show "((output_size, buf', drop (length line) stream), (output_size, buf, stream))
                 \<in> measure (\<lambda>(output_size, buf, stream). length stream)"
    by simp
qed

text \<open>
  \<^verbatim>\<open>execute_command\<close> with an output buffer of \<open>output_size\<close> bytes, zeroed by the
  caller: whether the status is 0, the text captured, the exit code, and the file system
  after the run.
\<close>

definition execute_command ::
    "shell \<Rightarrow> filesystem \<Rightarrow> string \<Rightarrow> nat \<Rightarrow> (bool \<times> string \<times> int) \<times> filesystem" where
  "execute_command sh fs command output_size =
     (case sh command fs of
        (Popen_failed, out, fs') \<Rightarrow> ((False, [], -1), fs)
      | (Exited n, out, fs') \<Rightarrow> ((n = 0, capture_output output_size [] out, n), fs')
      | (Signalled, out, fs') \<Rightarrow> ((False, capture_output output_size [] out, -1), fs'))"

text \<open>
  \<^verbatim>\<open>compile_source_file\<close>. \<open>None\<close>: a piece of the command is written beyond the end
  of the command buffer.
\<close>

definition compile_source_file ::
    "shell \<Rightarrow> filesystem \<Rightarrow> SourceFile \<Rightarrow> BuildConfig
       \<Rightarrow> (CompileResult \<times> filesystem) option" where
  "compile_source_file sh fs source config =
     (if is_header source
      then Some (\<lparr> success = True, object_file = None, error_output = None, exit_code = 0 \<rparr>, fs)
      else
        (let obj = get_object_file_path (path source) (output_dir config) MAX_PATH_LENGTH
         in if \<not> needs_recompilation fs (path source) obj
            then Some (\<lparr> success = True, object_file = Some obj, error_output = None,
                         exit_code = 0 \<rparr>, fs)
            else
              (case compile_command config source obj of
                 None \<Rightarrow> None
               | Some command \<Rightarrow>
                   (let ((ok, out, code), fs') = execute_command sh fs command 4096
                    in Some (\<lparr> success = ok, object_file = Some obj,
                                 error_output = (if out = [] then None else Some out),
                                 exit_code = code \<rparr>, fs')))))"


text \<open>
  The compile command that a run of \<^verbatim>\<open>ecbuild\<close> with the arguments \<open>argv\<close> issues for
  the unit \<open>source\<close>: \<^verbatim>\<open>main\<close> parses the arguments and configures the build,
  \<^verbatim>\<open>build_project\<close> settles the compiler and the build directory, and
  \<^verbatim>\<open>compile_source_file\<close> derives the object path and formats the command.
\<close>

definition ecbuild_compile_command ::
    "string list \<Rightarrow> (CompilerType \<times> string) option \<Rightarrow> SourceFile \<Rightarrow> string option" where
  "ecbuild_compile_command argv found source =
     (case parse_arguments argv of
        None \<Rightarrow> None
      | Some args \<Rightarrow>
          (case build_project_config found (main_build_config args) (arg_source_dir args) of
             None \<Rightarrow> None
           | Some config \<Rightarrow>
               compile_command config source
                 (get_object_file_path (path source) (output_dir config) MAX_PATH_LENGTH)))"


text \<open>
  \<^verbatim>\<open>link_executable\<close>. \<open>None\<close>: a piece of the command is written beyond the end of
  the command buffer, or the list of
  objects is empty (the function then returns without filling the result that its callers
  go on to read).
\<close>

definition link_command :: "BuildConfig \<Rightarrow> path list \<Rightarrow> path \<Rightarrow> string option" where
  "link_command config object_files binary_path =
     (let cc = (case compiler_path config of Some p \<Rightarrow> p | None \<Rightarrow> ''gcc'');
          st = command_append (Some (0, [])) cc;
          st = foldl (\<lambda>st obj. command_append st ('' '' @ obj)) st object_files;
          st = command_append st ('' -o '' @ binary_path);
          st = foldl (\<lambda>st dir. command_append st ('' -L'' @ dir)) st (library_paths config);
          st = foldl (\<lambda>st lib. command_append st ('' -l'' @ lib)) st (libraries config);
          st = foldl (\<lambda>st flag. command_append st ('' '' @ flag)) st (ldflags config)
      in map_option snd st)"

definition link_executable ::
    "shell \<Rightarrow> filesystem \<Rightarrow> path list \<Rightarrow> BuildConfig \<Rightarrow> (CompileResult \<times> filesystem) option" where
  "link_executable sh fs object_files config =
     (if object_files = [] then None
      else
        (let binary_path = snprintf MAX_PATH_LENGTH (output_dir config @ ''/'' @ output_binary config)
         in case link_command config object_files binary_path of
              None \<Rightarrow> None
            | Some command \<Rightarrow>
                (let ((ok, out, code), fs') = execute_command sh fs command 4096
                 in Some (\<lparr> success = ok, object_file = Some binary_path,
                              error_output = (if out = [] then None else Some out),
                              exit_code = code \<rparr>, fs'))))"

subsection \<open>Saving the cache (\<^verbatim>\<open>build_cache_save\<close>)\<close>

text \<open>
  The store is written to \<^verbatim>\<open>cache.dat.tmp\<close> and renamed over \<^verbatim>\<open>cache.dat\<close>. A write
  that fails after the file was opened, and a rename that fails, are not modelled.
\<close>

definition build_cache_save :: "filesystem \<Rightarrow> BuildCache \<Rightarrow> bool \<times> filesystem" where
  "build_cache_save fs cache =
     (let temp_file = snprintf MAX_PATH_LENGTH (cache_dir cache @ ''/'' @ ''cache.dat.tmp'');
          cache_file = snprintf MAX_PATH_LENGTH (cache_dir cache @ ''/'' @ ''cache.dat'')
      in if \<not> fs_writable fs temp_file then (False, fs)
         else (True,
               fs\<lparr>fs_cache_file := (fs_cache_file fs)
                      (cache_file \<mapsto> \<lparr> cf_version = Some (version cache),
                                      cf_entry_count = Some (entry_count cache),
                                      cf_entries = entries cache \<rparr>)\<rparr>))"

subsection \<open>Pipeline events and layers (\<^verbatim>\<open>eventchains_build.c\<close>, \<^verbatim>\<open>eventchains_middleware.c\<close>)\<close>

text \<open>
  Modelled from the spec: the EventChains library (\<^verbatim>\<open>include/eventchains.h\<close>) is not
  among the sources. Section 4.K of the specification gives what the build relies on: a stage
  produces an outcome that is success or a failure with a kind and a message
  (\<open>EventResult\<close>, \<open>event_result_success\<close>, \<open>event_result_failure\<close>), and all stages share a
  context that is a keyed map from strings to opaque values (\<open>EventContext\<close>).
\<close>

datatype EventChainErrorCode =
    EC_SUCCESS
  | EC_ERROR_NULL_POINTER
  | EC_ERROR_INVALID_PARAMETER
  | EC_ERROR_EVENT_EXECUTION_FAILED

record EventResult =
  result_success :: bool
  error_message :: string
  error_code :: EventChainErrorCode

definition event_result_success :: EventResult where
  "event_result_success = \<lparr> result_success = True, error_message = [], error_code = EC_SUCCESS \<rparr>"

definition event_result_failure :: "string \<Rightarrow> EventChainErrorCode \<Rightarrow> EventResult" where
  "event_result_failure msg code =
     \<lparr> result_success = False, error_message = msg, error_code = code \<rparr>"

datatype context_value =
    Config_value BuildConfig
  | Graph_value DependencyGraph
  | Path_value path

type_synonym EventContext = "string \<rightharpoonup> context_value"

text \<open>
  \<^verbatim>\<open>CompileEventData\<close> and the event that carries it. The two pointers may be
  \<^verbatim>\<open>NULL\<close> as far as the layers test them.
\<close>

record CompileEventData =
  event_source :: "SourceFile option"
  event_config :: "BuildConfig option"
  event_object_path :: path
  cache_hit :: bool

record ChainableEvent =
  event_name :: string
  user_data :: "CompileEventData option"

record BuildStatistics =
  total_files :: "64 word"
  compiled_files :: "64 word"
  cached_files :: "64 word"
  failed_files :: "64 word"

text \<open>
  What a stage and its layers read and write: the file system, the shared context, the
  store owned by the cache layer and the counters owned by the statistics layer.
\<close>

record build_state =
  bs_fs :: filesystem
  bs_context :: EventContext
  bs_cache :: "BuildCache option"
  bs_stats :: "BuildStatistics option"

type_synonym stage =
  "ChainableEvent \<Rightarrow> build_state \<Rightarrow> (EventResult \<times> ChainableEvent \<times> build_state) option"

definition object_key :: "path \<Rightarrow> string" where
  "object_key p = snprintf 512 (''object:'' @ p)"

text \<open>\<^verbatim>\<open>compile_event_execute\<close>.\<close>

definition compile_event_execute :: "shell \<Rightarrow> stage" where
  "compile_event_execute sh event st =
     (case user_data event of
        None \<Rightarrow>
          Some (event_result_failure ''Invalid compile event data'' EC_ERROR_NULL_POINTER,
                event, st)
      | Some data \<Rightarrow>
          (case event_source data of
             None \<Rightarrow>
               Some (event_result_failure ''Invalid compile event data'' EC_ERROR_NULL_POINTER,
                     event, st)
           | Some source \<Rightarrow>
               (case event_config data of
                  None \<Rightarrow>
                    Some (event_result_failure ''Invalid compile event data''
                            EC_ERROR_NULL_POINTER, event, st)
                | Some config \<Rightarrow>
                    if is_header source
                    then Some (event_result_success,
                               event\<lparr>user_data := Some (data\<lparr>cache_hit := True\<rparr>)\<rparr>, st)
                    else
                      (case compile_source_file sh (bs_fs st) source config of
                         None \<Rightarrow> None
                       | Some (compile_result, fs') \<Rightarrow>
                           (let data1 = data\<lparr>cache_hit := False\<rparr>;
                                data2 = (case object_file compile_result of
                                           None \<Rightarrow> data1
                                         | Some obj \<Rightarrow>
                                             data1\<lparr>event_object_path := copy_path obj\<rparr>);
                                context = (case object_file compile_result of
                                             None \<Rightarrow> bs_context st
                                           | Some obj \<Rightarrow>
                                               (bs_context st)
                                                 (object_key (path source)
                                                    \<mapsto> Path_value (copy_path obj)));
                                result =
                                  (if success compile_result then event_result_success
                                   else event_result_failure
                                          (snprintf 1024
                                             (''Compilation failed: '' @
                                                (case error_output compile_result of
                                                   Some out \<Rightarrow> out
                                                 | None \<Rightarrow> ''Unknown error'')))
                                          EC_ERROR_EVENT_EXECUTION_FAILED)
                            in Some (result, event\<lparr>user_data := Some data2\<rparr>,
                                     st\<lparr>bs_fs := fs', bs_context := context\<rparr>))))))"

text \<open>\<^verbatim>\<open>create_compile_event\<close>.\<close>

definition create_compile_event :: "SourceFile \<Rightarrow> BuildConfig \<Rightarrow> ChainableEvent" where
  "create_compile_event source config =
     \<lparr> event_name = snprintf 512 (''Compile:'' @ path source),
       user_data = Some \<lparr> event_source = Some source, event_config = Some config,
                          event_object_path =
                            get_object_file_path (path source) (output_dir config)
                              MAX_PATH_LENGTH,
                          cache_hit = False \<rparr> \<rparr>"

text \<open>
  \<^verbatim>\<open>cache_middleware_execute\<close>. \<open>now\<close> is the clock read by the cache update. The store
  is consulted first; a content hit counts only if the object file exists, and otherwise
  the stage below runs and, when it succeeds, the store is updated.
\<close>

definition cache_update_after :: "int \<Rightarrow> SourceFile \<Rightarrow> path \<Rightarrow> build_state \<Rightarrow> build_state" where
  "cache_update_after now source obj st =
     (case bs_cache st of
        None \<Rightarrow> st
      | Some cache \<Rightarrow>
          (let graph = (case bs_context st ''dependency_graph'' of
                          Some (Graph_value g) \<Rightarrow> Some g
                        | _ \<Rightarrow> None)
           in st\<lparr>bs_cache :=
                   Some (snd (build_cache_update (bs_fs st) now cache (path source) obj graph))\<rparr>))"

definition compile_below :: "int \<Rightarrow> stage \<Rightarrow> SourceFile \<Rightarrow> CompileEventData \<Rightarrow> stage" where
  "compile_below now next source data event st =
     (case next (event\<lparr>user_data := Some (data\<lparr>cache_hit := False\<rparr>)\<rparr>) st of
        None \<Rightarrow> None
      | Some (result, event', st') \<Rightarrow>
          if result_success result
          then Some (result, event',
                     cache_update_after now source
                       (case user_data event' of
                          Some data' \<Rightarrow> event_object_path data'
                        | None \<Rightarrow> event_object_path data)
                       st')
          else Some (result, event', st'))"

definition cache_middleware_execute :: "int \<Rightarrow> stage \<Rightarrow> stage" where
  "cache_middleware_execute now next event st =
     (case user_data event of
        None \<Rightarrow> next event st
      | Some data \<Rightarrow>
          (case event_source data of
             None \<Rightarrow> next event st
           | Some source \<Rightarrow>
               if is_header source
               then Some (event_result_success,
                          event\<lparr>user_data := Some (data\<lparr>cache_hit := True\<rparr>)\<rparr>, st)
               else
                 (case bs_cache st of
                    None \<Rightarrow> compile_below now next source data event st
                  | Some cache \<Rightarrow>
                      (let (needs, cache') =
                             build_cache_needs_recompilation (bs_fs st) cache source
                               (event_object_path data);
                           st1 = st\<lparr>bs_cache := Some cache'\<rparr>
                       in if \<not> needs
                          then (if file_exists_cache (bs_fs st) (event_object_path data)
                                then Some (event_result_success,
                                           event\<lparr>user_data := Some (data\<lparr>cache_hit := True\<rparr>)\<rparr>,
                                           st1\<lparr>bs_context :=
                                                 (bs_context st)
                                                   (object_key (path source)
                                                      \<mapsto> Path_value (event_object_path data))\<rparr>)
                                else compile_below now next source data event st1)
                          else compile_below now next source data event st1))))"

text \<open>
  \<^verbatim>\<open>statistics_middleware_execute\<close>: whether the event is a compile event is decided
  before the stage below runs, the cache-hit mark is read after it.
\<close>

definition statistics_middleware_execute :: "stage \<Rightarrow> stage" where
  "statistics_middleware_execute next event st =
     (case bs_stats st of
        None \<Rightarrow> next event st
      | Some _ \<Rightarrow>
          (let is_compile_event =
                 (case user_data event of
                    None \<Rightarrow> False
                  | Some data \<Rightarrow> event_source data \<noteq> None)
           in case next event st of
                None \<Rightarrow> None
              | Some (result, event', st') \<Rightarrow>
                  if \<not> is_compile_event then Some (result, event', st')
                  else
                    (let hit = (case user_data event' of
                                  Some data' \<Rightarrow> cache_hit data'
                                | None \<Rightarrow> False)
                     in Some (result, event',
                              st'\<lparr>bs_stats :=
                                    map_option
                                      (\<lambda>stats.
                                         if result_success result
                                         then (if hit
                                               then stats\<lparr>cached_files := cached_files stats + 1\<rparr>
                                               else stats\<lparr>compiled_files := compiled_files stats + 1\<rparr>)
                                         else stats\<lparr>failed_files := failed_files stats + 1\<rparr>)
                                      (bs_stats st')\<rparr>))))"

text \<open>
  The logging and timing layers call the stage below; what they print and the duration they
  measure are not modelled.
\<close>

definition logging_middleware_execute :: "stage \<Rightarrow> stage" where
  "logging_middleware_execute next event st = next event st"

definition timing_middleware_execute :: "stage \<Rightarrow> stage" where
  "timing_middleware_execute next event st = next event st"

datatype layer = Statistics_layer | Logging_layer | Cache_layer | Timing_layer

definition layer_execute :: "int \<Rightarrow> layer \<Rightarrow> stage \<Rightarrow> stage" where
  "layer_execute now l next =
     (case l of
        Statistics_layer \<Rightarrow> statistics_middleware_execute next
      | Logging_layer \<Rightarrow> logging_middleware_execute next
      | Cache_layer \<Rightarrow> cache_middleware_execute now next
      | Timing_layer \<Rightarrow> timing_middleware_execute next)"

text \<open>
  Modelled from the spec: the pipeline executor of the EventChains library
  (\<^verbatim>\<open>event_chain_use_middleware\<close>, \<^verbatim>\<open>event_chain_execute\<close>) is not among the sources.
  Section 4.K: layer composition is the classical onion, the layer added earliest runs
  outermost; the stages run sequentially; in strict mode the first failed stage aborts the
  run. \<open>run_layers\<close> takes the layers in the order they were added.
\<close>

fun run_layers :: "int \<Rightarrow> shell \<Rightarrow> layer list \<Rightarrow> stage" where
  "run_layers now sh [] = compile_event_execute sh"
| "run_layers now sh (l # ls) = layer_execute now l (run_layers now sh ls)"

fun event_chain_execute ::
    "int \<Rightarrow> shell \<Rightarrow> layer list \<Rightarrow> ChainableEvent list \<Rightarrow> build_state
       \<Rightarrow> (bool \<times> ChainableEvent list \<times> build_state) option" where
  "event_chain_execute now sh layers [] st = Some (True, [], st)"
| "event_chain_execute now sh layers (event # events) st =
     (case run_layers now sh layers event st of
        None \<Rightarrow> None
      | Some (result, event', st') \<Rightarrow>
          if \<not> result_success result then Some (False, event' # events, st')
          else (case event_chain_execute now sh layers events st' of
                  None \<Rightarrow> None
                | Some (ok, events', st'') \<Rightarrow> Some (ok, event' # events', st'')))"

text \<open>
  \<^verbatim>\<open>build_compilation_chain\<close>: one compile event per unit of the build order that is
  not a header. \<open>Inl ()\<close> is the return value \<^verbatim>\<open>NULL\<close> (the sort failed, or no source
  unit is left).
\<close>

definition build_compilation_chain ::
    "DependencyGraph \<Rightarrow> BuildConfig \<Rightarrow> (unit + DependencyGraph \<times> ChainableEvent list) option" where
  "build_compilation_chain graph config =
     (case dependency_graph_topological_sort graph of
        None \<Rightarrow> None
      | Some (Inl trace) \<Rightarrow> Some (Inl ())
      | Some (Inr (graph', order)) \<Rightarrow>
          (let events = map (\<lambda>i. create_compile_event (files graph' ! i) config)
                            (filter (\<lambda>i. \<not> is_header (files graph' ! i)) order)
           in if events = [] then Some (Inl ()) else Some (Inr (graph', events))))"

text \<open>
  The project directory that \<^verbatim>\<open>eventchains_build_project\<close> derives from the output
  directory: a trailing separator is removed, then the path is cut at its last separator.
\<close>

definition project_dir_of :: "path \<Rightarrow> path" where
  "project_dir_of odir =
     (let d = copy_path odir;
          d = (if d \<noteq> [] \<and> (last d = CHR ''/'' \<or> last d = CHR 0x5C) then butlast d else d)
      in case strrchr d CHR ''/'' of
           Some k \<Rightarrow> take k d
         | None \<Rightarrow>
             (case strrchr d CHR 0x5C of
                Some k \<Rightarrow> take k d
              | None \<Rightarrow> d))"

record build_outcome =
  return_code :: int
  final_stats :: "BuildStatistics option"
  final_cache :: "BuildCache option"
  final_fs :: filesystem

text \<open>
  \<^verbatim>\<open>eventchains_build_project\<close>. \<open>want_stats\<close> says whether the caller passed a
  statistics record. The layers are attached in the order statistics, logging, cache and,
  when verbose, timing. The outcome carries the store as it is when the function prints and
  destroys it. \<open>None\<close>: a piece of a command is written beyond the end of the command
  buffer.
\<close>

definition eventchains_build_project ::
    "int \<Rightarrow> shell \<Rightarrow> filesystem \<Rightarrow> DependencyGraph \<Rightarrow> BuildConfig \<Rightarrow> bool
       \<Rightarrow> build_outcome option" where
  "eventchains_build_project now sh fs graph config want_stats =
     (let stats0 = (if want_stats
                    then Some \<lparr> total_files = of_nat (length (files graph)), compiled_files = 0,
                                 cached_files = 0, failed_files = 0 \<rparr>
                    else None);
          cache = snd (build_cache_create fs (project_dir_of (output_dir config)))
      in case build_compilation_chain graph config of
           None \<Rightarrow> None
         | Some (Inl _) \<Rightarrow>
             Some \<lparr> return_code = 1, final_stats = stats0, final_cache = Some cache,
                    final_fs = fs \<rparr>
         | Some (Inr (graph', events)) \<Rightarrow>
             (let context = [''build.config'' \<mapsto> Config_value config,
                             ''dependency_graph'' \<mapsto> Graph_value graph'];
                  layers = (if want_stats then [Statistics_layer] else [])
                           @ [Logging_layer, Cache_layer]
                           @ (if verbose config then [Timing_layer] else []);
                  st0 = \<lparr> bs_fs = fs, bs_context = context, bs_cache = Some cache,
                          bs_stats = stats0 \<rparr>
              in case event_chain_execute now sh layers events st0 of
                   None \<Rightarrow> None
                 | Some (ok, events', st) \<Rightarrow>
                     (let fs1 = (case bs_cache st of
                                   Some c \<Rightarrow> snd (build_cache_save (bs_fs st) c)
                                 | None \<Rightarrow> bs_fs st)
                      in if \<not> ok
                         then Some \<lparr> return_code = 1, final_stats = bs_stats st,
                                     final_cache = bs_cache st, final_fs = fs1 \<rparr>
                         else
                           (let object_files =
                                  concat (map (\<lambda>e. case user_data e of
                                                       None \<Rightarrow> []
                                                     | Some data \<Rightarrow>
                                                         if event_object_path data \<noteq> []
                                                            \<and> (case event_source data of
                                                                  Some s \<Rightarrow> \<not> is_header s
                                                                | None \<Rightarrow> False)
                                                         then [event_object_path data] else [])
                                              events')
                            in case link_executable sh fs1 object_files config of
                                 None \<Rightarrow> None
                               | Some (link_result, fs2) \<Rightarrow>
                                   Some \<lparr> return_code = (if success link_result then 0 else 1),
                                          final_stats = bs_stats st,
                                          final_cache = bs_cache st,
                                          final_fs = fs2 \<rparr>))))"


subsection \<open>Notions used to state the sorter's properties\<close>

text \<open>
  The part of a graph that the sorter never writes: path, include list and kind of each
  unit. \<open>extends\<close> relates the graph and order before a traversal step to those after it.
\<close>

definition skeleton :: "DependencyGraph \<Rightarrow> (path \<times> path list \<times> bool) list" where
  "skeleton graph = map (\<lambda>f. (path f, include_list f, is_header f)) (files graph)"

definition extends ::
    "DependencyGraph \<Rightarrow> BuildOrder \<Rightarrow> DependencyGraph \<Rightarrow> BuildOrder \<Rightarrow> bool" where
  "extends graph order graph' order' \<longleftrightarrow>
     skeleton graph' = skeleton graph
     \<and> (\<forall>i < length (files graph). visited (files graph ! i) \<longrightarrow> visited (files graph' ! i))
     \<and> (\<forall>i < length (files graph). in_stack (files graph' ! i) = in_stack (files graph ! i))
     \<and> (\<exists>ext. order' = order @ ext)"

text \<open>
  The invariant of the traversal: the order holds exactly the finished units (visited and off
  the stack), each once, a unit on the stack is visited, and every unit in the order comes
  after all the registered units its include list resolves to.
\<close>

definition sorted_so_far :: "DependencyGraph \<Rightarrow> BuildOrder \<Rightarrow> bool" where
  "sorted_so_far graph order \<longleftrightarrow>
     distinct order
     \<and> (\<forall>i. i \<in> set order \<longleftrightarrow>
            i < length (files graph) \<and> visited (files graph ! i) \<and> \<not> in_stack (files graph ! i))
     \<and> (\<forall>i < length (files graph). in_stack (files graph ! i) \<longrightarrow> visited (files graph ! i))
     \<and> (\<forall>k < length order. \<forall>inc \<in> set (include_list (files graph ! (order ! k))). \<forall>dep.
            dependency_graph_find_file graph inc = Some dep \<longrightarrow> dep \<in> set (take k order))"

definition unvisited :: "DependencyGraph \<Rightarrow> nat set" where
  "unvisited graph = {i. i < length (files graph) \<and> \<not> visited (files graph ! i)}"


text \<open>
  \<open>header_at\<close>: the index names a registered header. \<open>headers_include_headers\<close>: every
  include of a header that resolves to a registered unit resolves to a header.
\<close>

definition header_at :: "DependencyGraph \<Rightarrow> nat \<Rightarrow> bool" where
  "header_at graph k \<longleftrightarrow> k < length (files graph) \<and> is_header (files graph ! k)"

definition headers_include_headers :: "DependencyGraph \<Rightarrow> bool" where
  "headers_include_headers graph \<longleftrightarrow>
     (\<forall>i < length (files graph). is_header (files graph ! i) \<longrightarrow>
        (\<forall>inc \<in> set (include_list (files graph ! i)). \<forall>dep.
           dependency_graph_find_file graph inc = Some dep \<longrightarrow> is_header (files graph ! dep)))"

text \<open>The build order of a successful sort.\<close>

definition sorted_order :: "DependencyGraph \<Rightarrow> BuildOrder option" where
  "sorted_order graph =
     (case dependency_graph_topological_sort graph of
        Some (Inr (graph', order)) \<Rightarrow> Some order
      | _ \<Rightarrow> None)"


subsection \<open>Example inputs\<close>

text \<open>
  Concrete inputs on which the theorems below are exercised: a small source tree, a cache
  entry for \<^verbatim>\<open>src/main.c\<close> with a chosen dependency list, an entry for another source
  file, and an on-disk cache image whose entry count exceeds the bound.
\<close>

definition example_fs :: filesystem where
  "example_fs =
     \<lparr> fs_read = [''src/main.c'' \<mapsto> ''int main(void){return 0;}'',
                   ''src/math.h'' \<mapsto> ''int add(int, int);'',
                   ''src/empty.c'' \<mapsto> []],
       fs_exists = (\<lambda>p. p \<in> {''src/main.c'', ''src/math.h'', ''src/empty.c''}),
       fs_regular = (\<lambda>p. p \<in> {''src/main.c'', ''src/math.h'', ''src/empty.c''}),
       fs_mtime = (\<lambda>p. if p \<in> {''src/main.c'', ''src/math.h'', ''src/empty.c''}
                        then Some 100 else None),
       fs_cache_file = Map.empty,
       fs_writable = (\<lambda>p. True) \<rparr>"

definition example_source :: SourceFile where
  "example_source =
     \<lparr> path = ''src/main.c'', include_list = [''src/math.h''], is_header = False,
       visited = False, in_stack = False, sort_order = -1 \<rparr>"

definition example_entry :: "(path \<times> 64 word) list \<Rightarrow> CacheEntry" where
  "example_entry deps =
     \<lparr> source_path = ''src/main.c'', object_path = ''build/main.o'',
       source_hash = hash_bytes FNV_OFFSET_BASIS ''int main(void){return 0;}'',
       source_mtime = 100, last_compiled = 200, dependencies = deps, valid = True \<rparr>"

definition example_other_entry :: CacheEntry where
  "example_other_entry =
     \<lparr> source_path = ''src/util.c'', object_path = ''build/util.o'',
       source_hash = 11, source_mtime = 100, last_compiled = 200, dependencies = [],
       valid = True \<rparr>"

definition example_cache :: "CacheEntry list \<Rightarrow> BuildCache" where
  "example_cache es =
     \<lparr> version = CACHE_VERSION, entries = es, cache_dir = ''./.eventchains'',
       project_dir = ''.'', hits = 0, misses = 0, invalidations = 0 \<rparr>"

definition oversized_cache_file :: cache_file where
  "oversized_cache_file =
     \<lparr> cf_version = Some CACHE_VERSION, cf_entry_count = Some 5000, cf_entries = [] \<rparr>"


text \<open>
  The three-file project of scenario S2 as the scanner registers it from the directory
  \<^verbatim>\<open>proj\<close>, and a header that includes its implementation file.
\<close>

definition unit_of :: "path \<Rightarrow> path list \<Rightarrow> bool \<Rightarrow> SourceFile" where
  "unit_of p incs h =
     \<lparr> path = p, include_list = incs, is_header = h,
       visited = False, in_stack = False, sort_order = -1 \<rparr>"

definition s2_graph :: DependencyGraph where
  "s2_graph =
     \<lparr> files = [unit_of ''proj/main.c'' [''proj/math.h''] False,
                 unit_of ''proj/math.h'' [''proj/util.h''] True,
                 unit_of ''proj/util.h'' [] True],
       include_paths = [''proj'', ''.''] \<rparr>"

definition header_with_body_graph :: DependencyGraph where
  "header_with_body_graph =
     \<lparr> files = [unit_of ''proj/list.h'' [''proj/list_impl.c''] True,
                 unit_of ''proj/list_impl.c'' [] False],
       include_paths = [''proj'', ''.''] \<rparr>"


text \<open>
  A source tree with two headers of the same name: \<^verbatim>\<open>proj/sub/widget.c\<close> includes
  \<^verbatim>\<open>"widget.h"\<close> in quote form, \<^verbatim>\<open>proj/sub/widget.h\<close> lies next to it, and
  \<^verbatim>\<open>proj/widget.h\<close> lies in the include root \<^verbatim>\<open>proj\<close>. The roots are those that
  \<^verbatim>\<open>ecbuild proj\<close> registers: the source directory and \<^verbatim>\<open>.\<close>.
\<close>

definition widget_fs :: filesystem where
  "widget_fs =
     \<lparr> fs_read = [''proj/sub/widget.c'' \<mapsto> [CHR ''#''] @ ''include '' @ [CHR 0x22] @ ''widget.h''
                                              @ [CHR 0x22, CHR 0x0A] @ ''int widget(void){return 1;}'',
                   ''proj/sub/widget.h'' \<mapsto> ''int widget(void);'',
                   ''proj/widget.h'' \<mapsto> ''int other_widget(void);''],
       fs_exists = (\<lambda>p. p \<in> {''proj/sub/widget.c'', ''proj/sub/widget.h'', ''proj/widget.h''}),
       fs_regular = (\<lambda>p. p \<in> {''proj/sub/widget.c'', ''proj/sub/widget.h'', ''proj/widget.h''}),
       fs_mtime = (\<lambda>p. if p \<in> {''proj/sub/widget.c'', ''proj/sub/widget.h'', ''proj/widget.h''}
                        then Some 100 else None),
       fs_cache_file = Map.empty,
       fs_writable = (\<lambda>p. True) \<rparr>"

definition widget_graph :: DependencyGraph where
  "widget_graph = \<lparr> files = [], include_paths = [''proj'', ''.''] \<rparr>"


text \<open>
  Scenario S2 on disk: the three files under \<^verbatim>\<open>proj\<close>, a configuration with the build
  directory \<^verbatim>\<open>proj/build\<close>, and a toolchain that accepts exactly the compile command
  for \<^verbatim>\<open>proj/main.c\<close> and the link command for its object, writing the file named
  after \<^verbatim>\<open>-o\<close>. \<open>remove_tree\<close> deletes every file below a directory.
\<close>

definition s2_util_text :: string where
  "s2_util_text = ''int util(void);''"

definition s2_math_text :: string where
  "s2_math_text = [CHR ''#''] @ ''include '' @ [CHR 0x22] @ ''util.h'' @ [CHR 0x22, CHR 0x0A]
                    @ ''int add(int, int);''"

definition s2_main_text :: string where
  "s2_main_text = [CHR ''#''] @ ''include '' @ [CHR 0x22] @ ''math.h'' @ [CHR 0x22, CHR 0x0A]
                    @ ''int main(void){return 0;}''"

definition s2_files :: "(path \<times> string) list" where
  "s2_files =
     [(''proj/util.h'', s2_util_text),
      (''proj/math.h'', s2_math_text),
      (''proj/main.c'', s2_main_text)]"

definition s2_fs :: filesystem where
  "s2_fs =
     \<lparr> fs_read = map_of s2_files,
       fs_exists = (\<lambda>p. p \<in> {''proj/util.h'', ''proj/math.h'', ''proj/main.c''}),
       fs_regular = (\<lambda>p. p \<in> {''proj/util.h'', ''proj/math.h'', ''proj/main.c''}),
       fs_mtime = (\<lambda>p. if p \<in> {''proj/util.h'', ''proj/math.h'', ''proj/main.c''}
                        then Some 100 else None),
       fs_cache_file = Map.empty,
       fs_writable = (\<lambda>p. True) \<rparr>"

definition write_file :: "path \<Rightarrow> string \<Rightarrow> int \<Rightarrow> filesystem \<Rightarrow> filesystem" where
  "write_file p bytes t fs =
     fs\<lparr> fs_read := (fs_read fs)(p \<mapsto> bytes),
         fs_exists := (fs_exists fs)(p := True),
         fs_regular := (fs_regular fs)(p := True),
         fs_mtime := (fs_mtime fs)(p \<mapsto> t) \<rparr>"

definition s2_shell :: shell where
  "s2_shell command fs =
     (if command = ''gcc -c proj/main.c -o proj/build/main.o -Iproj -Wall -O2''
      then (Exited 0, [], write_file ''proj/build/main.o'' ''object code'' 200 fs)
      else if command = ''gcc proj/build/main.o -o proj/build/program''
      then (Exited 0, [], write_file ''proj/build/program'' ''executable'' 300 fs)
      else (Exited 1, ''unexpected command'', fs))"

definition s2_config :: BuildConfig where
  "s2_config =
     (build_config_add_include_path
        (build_config_set_output_dir build_config_create ''proj/build'') ''proj'')
       \<lparr>compiler := COMPILER_GCC, compiler_path := Some ''gcc''\<rparr>"

definition remove_tree :: "path \<Rightarrow> filesystem \<Rightarrow> filesystem" where
  "remove_tree dir fs =
     fs\<lparr> fs_read := (\<lambda>p. if take (Suc (length dir)) p = dir @ ''/'' then None else fs_read fs p),
         fs_exists := (\<lambda>p. if take (Suc (length dir)) p = dir @ ''/'' then False
                            else fs_exists fs p),
         fs_regular := (\<lambda>p. if take (Suc (length dir)) p = dir @ ''/'' then False
                             else fs_regular fs p),
         fs_mtime := (\<lambda>p. if take (Suc (length dir)) p = dir @ ''/'' then None
                           else fs_mtime fs p),
         fs_cache_file := (\<lambda>p. if take (Suc (length dir)) p = dir @ ''/'' then None
                                else fs_cache_file fs p) \<rparr>"

text \<open>
  The builds of scenarios S4 and S5: a first build on the fresh tree, then a second build on
  the file system the first one left (S4), or on that file system with the build directory
  removed (S5).
\<close>

definition s2_first_build :: "build_outcome option" where
  "s2_first_build = eventchains_build_project 1000 s2_shell s2_fs s2_graph s2_config True"

definition s4_second_build :: "build_outcome option" where
  "s4_second_build =
     (case s2_first_build of
        None \<Rightarrow> None
      | Some first \<Rightarrow>
          eventchains_build_project 2000 s2_shell (final_fs first) s2_graph s2_config True)"

definition s5_rebuild :: "build_outcome option" where
  "s5_rebuild =
     (case s2_first_build of
        None \<Rightarrow> None
      | Some first \<Rightarrow>
          eventchains_build_project 2000 s2_shell (remove_tree ''proj/build'' (final_fs first))
            s2_graph s2_config True)"


text \<open>
  Values that occur in these builds: the graph as the sort leaves it, the compile event of
  \<^verbatim>\<open>proj/main.c\<close>, the store with given entries and counters, the entry recorded for
  \<^verbatim>\<open>proj/main.c\<close> at time \<open>t\<close>, and the file system after the compiler, the cache
  save and the linker have run.
\<close>

definition s2_sorted_graph :: DependencyGraph where
  "s2_sorted_graph =
     \<lparr> files = [(unit_of ''proj/main.c'' [''proj/math.h''] False)\<lparr>visited := True, sort_order := 2\<rparr>,
                 (unit_of ''proj/math.h'' [''proj/util.h''] True)\<lparr>visited := True, sort_order := 1\<rparr>,
                 (unit_of ''proj/util.h'' [] True)\<lparr>visited := True, sort_order := 0\<rparr>],
       include_paths = [''proj'', ''.''] \<rparr>"

definition s2_main_unit :: SourceFile where
  "s2_main_unit =
     (unit_of ''proj/main.c'' [''proj/math.h''] False)\<lparr>visited := True, sort_order := 2\<rparr>"

definition s2_main_data :: "bool \<Rightarrow> CompileEventData" where
  "s2_main_data hit =
     \<lparr> event_source = Some s2_main_unit, event_config = Some s2_config,
       event_object_path = ''proj/build/main.o'', cache_hit = hit \<rparr>"

definition s2_main_event :: "bool \<Rightarrow> ChainableEvent" where
  "s2_main_event hit =
     \<lparr> event_name = ''Compile:proj/main.c'', user_data = Some (s2_main_data hit) \<rparr>"

definition s2_store :: "CacheEntry list \<Rightarrow> 64 word \<Rightarrow> 64 word \<Rightarrow> BuildCache" where
  "s2_store es h m =
     \<lparr> version = CACHE_VERSION, entries = es, cache_dir = ''proj/.eventchains'',
       project_dir = ''proj'', hits = h, misses = m, invalidations = 0 \<rparr>"

definition s2_entry :: "int \<Rightarrow> CacheEntry" where
  "s2_entry t =
     \<lparr> source_path = ''proj/main.c'', object_path = ''proj/build/main.o'',
       source_hash = 5594538830881718542, source_mtime = 100, last_compiled = t,
       dependencies = [(''proj/math.h'', 16278271345327044106)], valid = True \<rparr>"

definition s2_context :: EventContext where
  "s2_context = [''build.config'' \<mapsto> Config_value s2_config,
                 ''dependency_graph'' \<mapsto> Graph_value s2_sorted_graph]"

definition s2_sources_present :: "filesystem \<Rightarrow> bool" where
  "s2_sources_present fs \<longleftrightarrow>
     fs_read fs ''proj/main.c'' = Some s2_main_text
     \<and> fs_read fs ''proj/math.h'' = Some s2_math_text
     \<and> fs_mtime fs ''proj/main.c'' = Some 100
     \<and> fs_writable fs ''proj/.eventchains/cache.dat.tmp''"

definition s2_after_compile :: "filesystem \<Rightarrow> filesystem" where
  "s2_after_compile fs = write_file ''proj/build/main.o'' ''object code'' 200 fs"

definition s2_after_save :: "BuildCache \<Rightarrow> filesystem \<Rightarrow> filesystem" where
  "s2_after_save cache fs =
     fs\<lparr>fs_cache_file := (fs_cache_file fs)
            (''proj/.eventchains/cache.dat''
               \<mapsto> \<lparr> cf_version = Some (version cache),
                      cf_entry_count = Some (entry_count cache),
                      cf_entries = entries cache \<rparr>)\<rparr>"

definition s2_after_link :: "filesystem \<Rightarrow> filesystem" where
  "s2_after_link fs = write_file ''proj/build/program'' ''executable'' 300 fs"


text \<open>The state after the compiler has run below the cache layer.\<close>

definition s2_compiled_state :: "CacheEntry list \<Rightarrow> 64 word \<Rightarrow> 64 word \<Rightarrow> build_state \<Rightarrow> build_state" where
  "s2_compiled_state es h m st =
     st\<lparr>bs_fs := s2_after_compile (bs_fs st),
        bs_context := (bs_context st)
           (''object:proj/main.c'' \<mapsto> Path_value ''proj/build/main.o''),
        bs_cache := Some (s2_store es h m)\<rparr>"

text \<open>The statistics record of a build of the three units, by its two counters that vary.\<close>

definition s2_stats :: "64 word \<Rightarrow> 64 word \<Rightarrow> BuildStatistics" where
  "s2_stats compiled cached =
     \<lparr> total_files = 3, compiled_files = compiled, cached_files = cached, failed_files = 0 \<rparr>"

text \<open>The state in which the chain starts.\<close>

definition s2_initial_state :: "filesystem \<Rightarrow> CacheEntry list \<Rightarrow> build_state" where
  "s2_initial_state fs es =
     \<lparr> bs_fs = fs, bs_context = s2_context, bs_cache = Some (s2_store es 0 0),
       bs_stats = Some (s2_stats 0 0) \<rparr>"

text \<open>The file system that the first build leaves.\<close>

definition s2_built_fs :: filesystem where
  "s2_built_fs =
     s2_after_link (s2_after_save (s2_store [s2_entry 1000] 0 1) (s2_after_compile s2_fs))"

text \<open>
  The state in which the chain of the rebuild of scenario S5 starts: the build directory is
  gone, the store holds the entry of the first build and fresh counters.
\<close>

definition s5_state :: build_state where
  "s5_state = s2_initial_state (remove_tree ''proj/build'' s2_built_fs) [s2_entry 1000]"


section \<open>Verified properties\<close>

subsection \<open>Evaluation of the example inputs\<close>

lemma example_fs_hash_main:
  "hash_file_content example_fs ''src/main.c''
     = hash_bytes FNV_OFFSET_BASIS ''int main(void){return 0;}''"
  by (simp add: hash_file_content_def example_fs_def)

lemma example_fs_hash_missing:
  "hash_file_content example_fs ''/usr/include/stdio.h'' = 0"
  by (simp add: hash_file_content_def example_fs_def)

lemma example_main_hash_nonzero:
  "hash_bytes FNV_OFFSET_BASIS ''int main(void){return 0;}'' \<noteq> 0"
  by (simp add: FNV_OFFSET_BASIS_def FNV_PRIME_def)

lemma example_fs_hash_math:
  "hash_file_content example_fs ''src/math.h'' \<noteq> 0
   \<and> hash_file_content example_fs ''src/math.h'' \<noteq> 7"
  by (simp add: hash_file_content_def example_fs_def FNV_OFFSET_BASIS_def FNV_PRIME_def)

lemma find_entry_from_replicate:
  "source_path e \<noteq> p \<Longrightarrow> find_entry_from (replicate n e) p i = None"
  by (induction n arbitrary: i) simp_all

subsection \<open>Content hasher\<close>

text \<open>
  C10. \<^verbatim>\<open>hash_file_content\<close> of a file that opens and holds no byte is the FNV-1a offset
  basis \<^verbatim>\<open>0xcbf29ce484222325\<close>, which is not the reserved value 0; so when the store
  holds a valid entry for the empty source with that hash and no recorded dependency has
  changed, the decision engine answers "no recompilation": the hash-is-zero rule does not fire.
\<close>

theorem hash_file_content_empty_file:
  assumes "fs_read fs (path source) = Some []"
  shows "hash_file_content fs (path source) = 0xcbf29ce484222325
         \<and> hash_file_content fs (path source) \<noteq> 0
         \<and> (build_cache_find cache (path source) = Some i \<and> valid (entries cache ! i)
              \<and> source_hash (entries cache ! i) = FNV_OFFSET_BASIS
              \<and> \<not> dependency_changed fs (dependencies (entries cache ! i))
             \<longrightarrow> build_cache_needs_recompilation fs cache source obj
                   = (False, cache\<lparr>hits := hits cache + 1\<rparr>))"
  using assms
  by (simp add: hash_file_content_def FNV_OFFSET_BASIS_def
                build_cache_needs_recompilation_def)

theorem hash_file_content_empty_file_witness:
  "fs_read example_fs ''src/empty.c'' = Some []
   \<and> hash_file_content example_fs ''src/empty.c'' = 0xcbf29ce484222325
   \<and> hash_file_content example_fs ''src/empty.c'' \<noteq> 0
   \<and> build_cache_needs_recompilation example_fs
         (example_cache [(example_entry [])\<lparr>source_path := ''src/empty.c'',
                                             source_hash := FNV_OFFSET_BASIS\<rparr>])
         (example_source\<lparr>path := ''src/empty.c''\<rparr>) ''build/empty.o''
       = (False, (example_cache [(example_entry [])\<lparr>source_path := ''src/empty.c'',
                                             source_hash := FNV_OFFSET_BASIS\<rparr>])\<lparr>hits := 1\<rparr>)"
  using hash_file_content_empty_file [of example_fs "example_source\<lparr>path := ''src/empty.c''\<rparr>"
          "example_cache [(example_entry [])\<lparr>source_path := ''src/empty.c'',
                                             source_hash := FNV_OFFSET_BASIS\<rparr>]" 0 "''build/empty.o''"]
  by (simp add: example_fs_def example_cache_def example_entry_def example_source_def
                build_cache_find_def)

subsection \<open>Decision engine\<close>

text \<open>
  The lookup of the code, \<^verbatim>\<open>build_cache_find\<close>: it finds nothing exactly when no entry
  of the store has the source path, and otherwise it returns the least index of an entry
  with that source path, which is the entry that \<^const>\<open>List.find\<close> returns.
\<close>

lemma find_entry_from_None:
  "find_entry_from es p i = None \<longleftrightarrow> (\<forall>entry \<in> set es. source_path entry \<noteq> p)"
  by (induction es arbitrary: i) auto

lemma find_entry_from_Some:
  "find_entry_from es p i = Some k
     \<Longrightarrow> i \<le> k \<and> k - i < length es \<and> source_path (es ! (k - i)) = p
         \<and> (\<forall>j < k - i. source_path (es ! j) \<noteq> p)"
proof (induction es arbitrary: i)
  case Nil
  then show ?case by simp
next
  case (Cons e es)
  show ?case
  proof (cases "source_path e = p")
    case True
    with Cons.prems show ?thesis by simp
  next
    case False
    with Cons.prems have f: "find_entry_from es p (Suc i) = Some k" by simp
    note ih = Cons.IH [OF f]
    from ih have "Suc i \<le> k" by blast
    then have d: "k - i = Suc (k - Suc i)" by arith
    have "\<forall>j < k - i. source_path ((e # es) ! j) \<noteq> p"
    proof (intro allI impI)
      fix j assume "j < k - i"
      then show "source_path ((e # es) ! j) \<noteq> p"
        using False ih d by (cases j) auto
    qed
    with ih d show ?thesis by simp
  qed
qed

lemma build_cache_find_absent:
  "build_cache_find cache p = None \<longleftrightarrow> (\<forall>entry \<in> set (entries cache). source_path entry \<noteq> p)"
  by (simp add: build_cache_find_def find_entry_from_None)

lemma build_cache_find_first:
  assumes "build_cache_find cache p = Some i"
  shows "i < length (entries cache) \<and> source_path (entries cache ! i) = p
         \<and> (\<forall>j < i. source_path (entries cache ! j) \<noteq> p)"
  using find_entry_from_Some [of "entries cache" p 0 i] assms
  by (simp add: build_cache_find_def)

lemma build_cache_find_find:
  "build_cache_find cache p = None
     \<Longrightarrow> List.find (\<lambda>entry. source_path entry = p) (entries cache) = None"
  "build_cache_find cache p = Some i
     \<Longrightarrow> List.find (\<lambda>entry. source_path entry = p) (entries cache)
           = Some (entries cache ! i)"
proof -
  show "build_cache_find cache p = None
          \<Longrightarrow> List.find (\<lambda>entry. source_path entry = p) (entries cache) = None"
    by (simp add: build_cache_find_absent find_None_iff)
  assume "build_cache_find cache p = Some i"
  from build_cache_find_first [OF this]
  show "List.find (\<lambda>entry. source_path entry = p) (entries cache) = Some (entries cache ! i)"
    unfolding find_Some_iff by blast
qed

lemma dependency_changed_iff:
  "dependency_changed fs deps \<longleftrightarrow>
     (\<exists>(dep, recorded) \<in> set deps.
        hash_file_content fs dep \<noteq> 0 \<and> hash_file_content fs dep \<noteq> recorded)"
  by (induction fs deps rule: dependency_changed.induct) (auto simp: Let_def)

text \<open>
  C1. \<^verbatim>\<open>build_cache_needs_recompilation\<close> returns true and increments the miss counter
  exactly when the entry is absent or invalid, or the current source hash is 0, or it differs
  from the stored hash, or some recorded dependency has a nonzero current hash different from
  the recorded one (a dependency whose current hash is 0 is passed over); in every other case
  it returns false and increments the hit counter. Nothing else of the store changes. The
  entry is the first entry of the store with the source path of the unit, wherever in the
  store it lies, and it is absent when no entry has that source path.
\<close>

theorem needs_recompilation_decision:
  "build_cache_needs_recompilation fs cache source obj =
     (if spec_miss_compile fs cache source
      then (True, cache\<lparr>misses := misses cache + 1\<rparr>)
      else (False, cache\<lparr>hits := hits cache + 1\<rparr>))"
proof (cases "build_cache_find cache (path source)")
  case None
  then have "List.find (\<lambda>entry. source_path entry = path source) (entries cache) = None"
    by (simp add: build_cache_find_find)
  with None show ?thesis
    by (simp add: build_cache_needs_recompilation_def spec_miss_compile_def)
next
  case (Some i)
  then have "List.find (\<lambda>entry. source_path entry = path source) (entries cache)
               = Some (entries cache ! i)"
    by (simp add: build_cache_find_find)
  with Some show ?thesis
    by (simp add: build_cache_needs_recompilation_def spec_miss_compile_def Let_def
          dependency_changed_iff)
qed

theorem needs_recompilation_decision_witness:
  "spec_miss_compile example_fs
      (example_cache [example_other_entry,
                      example_entry [(''/usr/include/stdio.h'', 99), (''src/math.h'', 7)]])
      example_source
   \<and> build_cache_needs_recompilation example_fs
      (example_cache [example_other_entry,
                      example_entry [(''/usr/include/stdio.h'', 99), (''src/math.h'', 7)]])
      example_source ''build/main.o''
     = (True, (example_cache [example_other_entry,
                              example_entry [(''/usr/include/stdio.h'', 99),
                                             (''src/math.h'', 7)]])
                \<lparr>misses := 1\<rparr>)
   \<and> \<not> spec_miss_compile example_fs
      (example_cache [example_other_entry, example_entry [(''/usr/include/stdio.h'', 99)]])
      example_source
   \<and> build_cache_needs_recompilation example_fs
      (example_cache [example_other_entry, example_entry [(''/usr/include/stdio.h'', 99)]])
      example_source ''build/main.o''
     = (False, (example_cache [example_other_entry,
                               example_entry [(''/usr/include/stdio.h'', 99)]])
                 \<lparr>hits := 1\<rparr>)
   \<and> spec_miss_compile example_fs (example_cache [example_other_entry]) example_source
   \<and> build_cache_needs_recompilation example_fs (example_cache [example_other_entry])
      example_source ''build/main.o''
     = (True, (example_cache [example_other_entry])\<lparr>misses := 1\<rparr>)"
proof -
  have miss: "spec_miss_compile example_fs
      (example_cache [example_other_entry,
                      example_entry [(''/usr/include/stdio.h'', 99), (''src/math.h'', 7)]])
      example_source"
    using example_fs_hash_math
    by (simp add: spec_miss_compile_def example_cache_def example_other_entry_def
                  example_entry_def example_source_def)
  have hit: "\<not> spec_miss_compile example_fs
      (example_cache [example_other_entry, example_entry [(''/usr/include/stdio.h'', 99)]])
      example_source"
    using example_main_hash_nonzero
    by (simp add: spec_miss_compile_def example_cache_def example_other_entry_def
                  example_entry_def example_source_def example_fs_hash_main
                  example_fs_hash_missing)
  have absent: "spec_miss_compile example_fs (example_cache [example_other_entry])
                  example_source"
    by (simp add: spec_miss_compile_def example_cache_def example_other_entry_def
                  example_source_def)
  show ?thesis
    using miss hit absent
      needs_recompilation_decision [of example_fs
        "example_cache [example_other_entry,
                        example_entry [(''/usr/include/stdio.h'', 99), (''src/math.h'', 7)]]"
        example_source "''build/main.o''"]
      needs_recompilation_decision [of example_fs
        "example_cache [example_other_entry, example_entry [(''/usr/include/stdio.h'', 99)]]"
        example_source "''build/main.o''"]
      needs_recompilation_decision [of example_fs
        "example_cache [example_other_entry]" example_source "''build/main.o''"]
    by (simp add: example_cache_def)
qed

subsection \<open>Cache store\<close>

text \<open>
  C7. When \<^verbatim>\<open>build_cache_update\<close> is called for a source path without an entry while
  the store holds \<^verbatim>\<open>MAX_CACHE_ENTRIES\<close> entries, it prints the cache-full warning and
  returns the store as it was: same entries, same count, same counters.
\<close>

theorem build_cache_update_full:
  assumes "build_cache_find cache src = None"
      and "entry_count cache \<ge> MAX_CACHE_ENTRIES"
  shows "build_cache_update fs now cache src obj graph = ([Warning_cache_full], cache)"
  using assms by (simp add: build_cache_update_def Let_def)

theorem build_cache_update_full_witness:
  "build_cache_find (example_cache (replicate 2048 (example_entry []))) ''src/new.c'' = None
   \<and> entry_count (example_cache (replicate 2048 (example_entry []))) \<ge> MAX_CACHE_ENTRIES
   \<and> build_cache_update example_fs 300 (example_cache (replicate 2048 (example_entry [])))
         ''src/new.c'' ''build/new.o'' None
       = ([Warning_cache_full], example_cache (replicate 2048 (example_entry [])))"
proof -
  have a: "build_cache_find (example_cache (replicate 2048 (example_entry []))) ''src/new.c'' = None"
    by (simp add: build_cache_find_def example_cache_def find_entry_from_replicate
                  example_entry_def)
  have b: "entry_count (example_cache (replicate 2048 (example_entry []))) \<ge> MAX_CACHE_ENTRIES"
    by (simp add: entry_count_def example_cache_def MAX_CACHE_ENTRIES_def)
  show ?thesis
    using a b build_cache_update_full [OF a b, of example_fs 300 "''build/new.o''" None]
    by simp
qed

lemma invalidate_dependents_loop_length:
  "length (fst (invalidate_dependents_loop changed es n)) = length es"
  by (induction es arbitrary: n) (simp_all add: Let_def case_prod_unfold)

text \<open>
  C9. Every cache operation keeps \<^verbatim>\<open>entry_count <= MAX_CACHE_ENTRIES\<close>:
  \<^verbatim>\<open>build_cache_create\<close> always returns a store within the bound, and an on-disk count
  above the bound gives the empty store with a warning; \<^verbatim>\<open>build_cache_update\<close> keeps
  a store that is within the bound within it; \<^verbatim>\<open>build_cache_clear\<close> sets the count to
  0; \<^verbatim>\<open>build_cache_invalidate\<close>, \<^verbatim>\<open>build_cache_invalidate_dependents\<close> and
  \<^verbatim>\<open>build_cache_needs_recompilation\<close> leave the count as it is
  (\<^verbatim>\<open>build_cache_find\<close> returns a slot and no store).
\<close>

theorem entry_count_bounded:
  "entry_count (snd (build_cache_create fs dir)) \<le> MAX_CACHE_ENTRIES
   \<and> (fs_cache_file fs (cache_file_path (cache_dir_path dir)) = Some fp
        \<and> cf_version fp = Some CACHE_VERSION \<and> cf_entry_count fp = Some n
        \<and> n > MAX_CACHE_ENTRIES
       \<longrightarrow> fst (build_cache_create fs dir) = [Warning_invalid_entry_count n]
            \<and> entries (snd (build_cache_create fs dir)) = [])
   \<and> (entry_count cache \<le> MAX_CACHE_ENTRIES
       \<longrightarrow> entry_count (snd (build_cache_update fs now cache src obj graph))
            \<le> MAX_CACHE_ENTRIES)
   \<and> entry_count (build_cache_clear cache) = 0
   \<and> entry_count (build_cache_invalidate cache src) = entry_count cache
   \<and> entry_count (build_cache_invalidate_dependents cache src graph) = entry_count cache
   \<and> entry_count (snd (build_cache_needs_recompilation fs cache source obj))
        = entry_count cache"
proof -
  have create: "entry_count (snd (build_cache_create fs dir)) \<le> MAX_CACHE_ENTRIES"
    by (simp add: build_cache_create_def entry_count_def Let_def split: option.split)
  have reject: "fs_cache_file fs (cache_file_path (cache_dir_path dir)) = Some fp
        \<and> cf_version fp = Some CACHE_VERSION \<and> cf_entry_count fp = Some n
        \<and> n > MAX_CACHE_ENTRIES
       \<longrightarrow> fst (build_cache_create fs dir) = [Warning_invalid_entry_count n]
            \<and> entries (snd (build_cache_create fs dir)) = []"
    by (simp add: build_cache_create_def Let_def)
  have update: "entry_count cache \<le> MAX_CACHE_ENTRIES
       \<longrightarrow> entry_count (snd (build_cache_update fs now cache src obj graph))
            \<le> MAX_CACHE_ENTRIES"
    by (simp add: build_cache_update_def entry_count_def Let_def split: option.split)
  have clear: "entry_count (build_cache_clear cache) = 0"
    by (simp add: build_cache_clear_def entry_count_def)
  have inval: "entry_count (build_cache_invalidate cache src) = entry_count cache"
    by (simp add: build_cache_invalidate_def entry_count_def split: option.split)
  have deps: "entry_count (build_cache_invalidate_dependents cache src graph) = entry_count cache"
    using invalidate_dependents_loop_length [of src "entries cache" "invalidations cache"]
    by (simp add: build_cache_invalidate_dependents_def entry_count_def case_prod_unfold
                  Let_def split: option.split)
  have needs: "entry_count (snd (build_cache_needs_recompilation fs cache source obj))
           = entry_count cache"
    by (simp add: build_cache_needs_recompilation_def entry_count_def Let_def
             split: option.split)
  from create reject update clear inval deps needs show ?thesis by blast
qed

theorem entry_count_bounded_witness:
  "fst (build_cache_create
          (example_fs\<lparr>fs_cache_file := [''./.eventchains/cache.dat'' \<mapsto> oversized_cache_file]\<rparr>)
          ''.'')
     = [Warning_invalid_entry_count 5000]
   \<and> entries (snd (build_cache_create
          (example_fs\<lparr>fs_cache_file := [''./.eventchains/cache.dat'' \<mapsto> oversized_cache_file]\<rparr>)
          ''.'')) = []
   \<and> entry_count (example_cache [example_entry []]) \<le> MAX_CACHE_ENTRIES
   \<and> entry_count (snd (build_cache_update example_fs 300 (example_cache [example_entry []])
          ''src/new.c'' ''build/new.o'' None)) \<le> MAX_CACHE_ENTRIES"
proof -
  let ?fs = "example_fs\<lparr>fs_cache_file := [''./.eventchains/cache.dat'' \<mapsto> oversized_cache_file]\<rparr>"
  have p: "cache_file_path (cache_dir_path ''.'') = ''./.eventchains/cache.dat''"
    by (simp add: cache_file_path_def cache_dir_path_def copy_path_def MAX_PATH_LENGTH_def)
  have a: "fs_cache_file ?fs (cache_file_path (cache_dir_path ''.'')) = Some oversized_cache_file"
    by (simp add: p)
  have b: "cf_version oversized_cache_file = Some CACHE_VERSION"
    and c: "cf_entry_count oversized_cache_file = Some 5000"
    by (simp_all add: oversized_cache_file_def)
  have d: "(5000::nat) > MAX_CACHE_ENTRIES" by (simp add: MAX_CACHE_ENTRIES_def)
  have e: "entry_count (example_cache [example_entry []]) \<le> MAX_CACHE_ENTRIES"
    by (simp add: entry_count_def example_cache_def MAX_CACHE_ENTRIES_def)
  show ?thesis
    using a b c d e
      entry_count_bounded [of ?fs "''.''" oversized_cache_file 5000
        "example_cache [example_entry []]" 300 "''src/new.c''" "''build/new.o''" None]
      entry_count_bounded [of example_fs "''.''" oversized_cache_file 5000
        "example_cache [example_entry []]" 300 "''src/new.c''" "''build/new.o''" None]
    by simp
qed

subsection \<open>Topological sorter: auxiliary facts\<close>

lemma find_file_from_map_path:
  "map path fs = map path fs' \<Longrightarrow> find_file_from fs p i = find_file_from fs' p i"
proof (induction fs arbitrary: fs' i)
  case Nil
  then show ?case by simp
next
  case (Cons f fs)
  then obtain f' fs'' where fs': "fs' = f' # fs''" by (cases fs') auto
  with Cons.prems have "path f = path f'" "map path fs = map path fs''" by auto
  with Cons.IH [of fs'' "Suc i"] fs' show ?case by simp
qed

lemma find_file_from_bounds:
  "find_file_from fs p i = Some k \<Longrightarrow> i \<le> k \<and> k < i + length fs \<and> path (fs ! (k - i)) = p"
proof (induction fs arbitrary: i)
  case Nil
  then show ?case by simp
next
  case (Cons f fs)
  show ?case
  proof (cases "path f = p")
    case True
    with Cons.prems show ?thesis by simp
  next
    case False
    with Cons.prems have "find_file_from fs p (Suc i) = Some k" by simp
    from Cons.IH [OF this] show ?thesis by (auto simp: nth_Cons')
  qed
qed

lemma find_file_bound:
  "dependency_graph_find_file g p = Some j \<Longrightarrow> j < length (files g) \<and> path (files g ! j) = p"
  using find_file_from_bounds [of "files g" p 0 j]
  by (simp add: dependency_graph_find_file_def)

lemma skeleton_map_path: "skeleton g' = skeleton g \<Longrightarrow> map path (files g') = map path (files g)"
proof -
  assume "skeleton g' = skeleton g"
  then have "map fst (skeleton g') = map fst (skeleton g)" by simp
  then show ?thesis by (simp add: skeleton_def comp_def)
qed

lemma find_file_skeleton:
  "skeleton g' = skeleton g \<Longrightarrow> dependency_graph_find_file g' p = dependency_graph_find_file g p"
  unfolding dependency_graph_find_file_def
  by (rule find_file_from_map_path) (rule skeleton_map_path)

lemma skeleton_length: "skeleton g' = skeleton g \<Longrightarrow> length (files g') = length (files g)"
  by (metis length_map skeleton_def)

lemma skeleton_nth:
  assumes "skeleton g' = skeleton g" "i < length (files g)"
  shows "path (files g' ! i) = path (files g ! i)"
    and "include_list (files g' ! i) = include_list (files g ! i)"
    and "is_header (files g' ! i) = is_header (files g ! i)"
proof -
  have l: "i < length (files g')" using assms(2) skeleton_length [OF assms(1)] by simp
  have "skeleton g' ! i = skeleton g ! i" by (simp only: assms(1))
  moreover have "skeleton g' ! i = (path (files g' ! i), include_list (files g' ! i), is_header (files g' ! i))"
    unfolding skeleton_def using l by simp
  moreover have "skeleton g ! i = (path (files g ! i), include_list (files g ! i), is_header (files g ! i))"
    unfolding skeleton_def using assms(2) by simp
  ultimately have "(path (files g' ! i), include_list (files g' ! i), is_header (files g' ! i))
           = (path (files g ! i), include_list (files g ! i), is_header (files g ! i))"
    by (simp only:)
  then show "path (files g' ! i) = path (files g ! i)"
    and "include_list (files g' ! i) = include_list (files g ! i)"
    and "is_header (files g' ! i) = is_header (files g ! i)" by simp_all
qed

lemma map_update_same:
  assumes "f y = f (xs ! i)"
  shows "map f (xs[i := y]) = map f xs"
proof (cases "i < length xs")
  case True
  then show ?thesis using assms by (simp add: map_update list_update_same_conv)
next
  case False
  then have "xs[i := y] = xs" by (simp add: not_less list_update_beyond)
  then show ?thesis by (simp only:)
qed

lemma skeleton_enter: "skeleton (enter_file g i) = skeleton g"
  by (simp add: skeleton_def enter_file_def map_update_same)

lemma skeleton_leave: "skeleton (leave_file g i k) = skeleton g"
  by (simp add: skeleton_def leave_file_def map_update_same)

lemma skeleton_reset: "skeleton (reset_marks g) = skeleton g"
  by (simp add: skeleton_def reset_marks_def comp_def)

lemma extends_refl: "extends g order g order"
  by (simp add: extends_def)

lemma extendsD:
  assumes "extends g o1 g' o2"
  shows "skeleton g' = skeleton g"
    and "length (files g') = length (files g)"
    and "\<And>i. i < length (files g) \<Longrightarrow> visited (files g ! i) \<Longrightarrow> visited (files g' ! i)"
    and "\<And>i. i < length (files g) \<Longrightarrow> in_stack (files g' ! i) = in_stack (files g ! i)"
    and "\<exists>ext. o2 = o1 @ ext"
proof -
  show s: "skeleton g' = skeleton g" using assms unfolding extends_def by blast
  show "length (files g') = length (files g)" by (rule skeleton_length [OF s])
  show "\<And>i. i < length (files g) \<Longrightarrow> visited (files g ! i) \<Longrightarrow> visited (files g' ! i)"
    using assms unfolding extends_def by blast
  show "\<And>i. i < length (files g) \<Longrightarrow> in_stack (files g' ! i) = in_stack (files g ! i)"
    using assms unfolding extends_def by blast
  show "\<exists>ext. o2 = o1 @ ext" using assms unfolding extends_def by blast
qed

lemma extendsI:
  assumes "skeleton g' = skeleton g"
    and "\<And>i. i < length (files g) \<Longrightarrow> visited (files g ! i) \<Longrightarrow> visited (files g' ! i)"
    and "\<And>i. i < length (files g) \<Longrightarrow> in_stack (files g' ! i) = in_stack (files g ! i)"
    and "\<exists>ext. o2 = o1 @ ext"
  shows "extends g o1 g' o2"
  using assms unfolding extends_def by blast

lemma extends_trans:
  assumes a: "extends g0 o0 g1 o1" and b: "extends g1 o1 g2 o2"
  shows "extends g0 o0 g2 o2"
proof (rule extendsI)
  show "skeleton g2 = skeleton g0"
    using extendsD(1) [OF a] extendsD(1) [OF b] by (simp only:)
next
  fix i assume i: "i < length (files g0)" and v: "visited (files g0 ! i)"
  have "i < length (files g1)" using i extendsD(2) [OF a] by simp
  then show "visited (files g2 ! i)"
    using extendsD(3) [OF b] extendsD(3) [OF a i v] by blast
next
  fix i assume i: "i < length (files g0)"
  have "i < length (files g1)" using i extendsD(2) [OF a] by simp
  then show "in_stack (files g2 ! i) = in_stack (files g0 ! i)"
    using extendsD(4) [OF b] extendsD(4) [OF a i] by simp
next
  obtain e1 e2 where "o1 = o0 @ e1" "o2 = o1 @ e2"
    using extendsD(5) [OF a] extendsD(5) [OF b] by blast
  then have "o2 = o0 @ (e1 @ e2)" by simp
  then show "\<exists>ext. o2 = o0 @ ext" by blast
qed


lemma files_enter_nth:
  "i < length (files g) \<Longrightarrow>
     files (enter_file g f) ! i
       = (if i = f then (files g ! f)\<lparr>visited := True, in_stack := True\<rparr> else files g ! i)"
  by (simp add: enter_file_def nth_list_update)

lemma files_leave_nth:
  "i < length (files g) \<Longrightarrow>
     files (leave_file g f k) ! i
       = (if i = f then (files g ! f)\<lparr>in_stack := False, sort_order := int k\<rparr> else files g ! i)"
  by (simp add: leave_file_def nth_list_update)

lemma length_enter [simp]: "length (files (enter_file g f)) = length (files g)"
  by (simp add: enter_file_def)

lemma length_leave [simp]: "length (files (leave_file g f k)) = length (files g)"
  by (simp add: leave_file_def)

lemma dfs_step_extends:
  assumes v: "extends (enter_file g u) order g1 order1"
      and ns: "\<not> in_stack (files g ! u)"
  shows "extends g order (leave_file g1 u k) (order1 @ [u])"
proof (rule extendsI)
  show "skeleton (leave_file g1 u k) = skeleton g"
    using extendsD(1) [OF v] by (simp add: skeleton_leave skeleton_enter)
next
  have l1: "length (files g1) = length (files g)" using extendsD(2) [OF v] by simp
  fix i assume i: "i < length (files g)"
  { assume "visited (files g ! i)"
    then have "visited (files (enter_file g u) ! i)" using i by (simp add: files_enter_nth)
    then have "visited (files g1 ! i)" using extendsD(3) [OF v, of i] i by simp
    then show "visited (files (leave_file g1 u k) ! i)"
      using i l1 by (auto simp: files_leave_nth) }
  have "in_stack (files g1 ! i) = in_stack (files (enter_file g u) ! i)"
    using extendsD(4) [OF v, of i] i by simp
  then show "in_stack (files (leave_file g1 u k) ! i) = in_stack (files g ! i)"
    using i l1 ns by (auto simp: files_leave_nth files_enter_nth)
next
  obtain e where "order1 = order @ e" using extendsD(5) [OF v] by blast
  then have "order1 @ [u] = order @ (e @ [u])" by simp
  then show "\<exists>ext. order1 @ [u] = order @ ext" by blast
qed

lemma dfs_extends:
  "\<not> in_stack (files g ! u) \<Longrightarrow>
     topological_sort_dfs fuel psz g u order = Some (Inr (g', order'))
     \<Longrightarrow> extends g order g' order'"
  "visit_includes fuel psz g u incs order = Some (Inr (g', order'))
     \<Longrightarrow> extends g order g' order'"
proof (induction fuel psz g u order and fuel psz g u incs order
       arbitrary: g' order' and g' order'
       rule: topological_sort_dfs_visit_includes.induct)
  case (1 path_size graph u order)
  then show ?case by simp
next
  case (2 fuel path_size graph u order)
  from "2.prems"(2) obtain g1 order1 where
    v: "visit_includes fuel path_size (enter_file graph u) u
          (include_list (files graph ! u)) order = Some (Inr (g1, order1))"
    and g': "g' = leave_file g1 u (length order1)" and o': "order' = order1 @ [u]"
    by (auto split: option.splits sum.splits)
  have "extends (enter_file graph u) order g1 order1" by (rule "2.IH" [OF v])
  then show ?case unfolding g' o' using "2.prems"(1) by (rule dfs_step_extends)
next
  case (3 fuel path_size graph u order)
  then show ?case by (simp add: extends_refl)
next
  case (4 fuel path_size graph u inc rest order)
  show ?case
  proof (cases "dependency_graph_find_file graph inc")
    case None
    with "4.prems" have "visit_includes fuel path_size graph u rest order = Some (Inr (g', order'))"
      by simp
    then show ?thesis by (rule "4.IH"(1) [OF None])
  next
    case (Some dep)
    show ?thesis
    proof (cases "in_stack (files graph ! dep)")
      case True
      with Some "4.prems" show ?thesis by simp
    next
      case ns: False
      show ?thesis
      proof (cases "visited (files graph ! dep)")
        case True
        with Some ns "4.prems" have "visit_includes fuel path_size graph u rest order = Some (Inr (g', order'))"
          by simp
        then show ?thesis using "4.IH"(4) [OF Some ns] True by simp
      next
        case nv: False
        from Some ns nv "4.prems" obtain g1 order1 where
          d: "topological_sort_dfs fuel path_size graph dep order = Some (Inr (g1, order1))"
          and r: "visit_includes fuel path_size g1 u rest order1 = Some (Inr (g', order'))"
          by (auto split: option.splits sum.splits)
        have e1: "extends graph order g1 order1" by (rule "4.IH"(2) [OF Some ns nv ns d])
        have e2: "extends g1 order1 g' order'"
          by (rule "4.IH"(3) [OF Some ns nv d refl refl r])
        from e1 e2 show ?thesis by (rule extends_trans)
      qed
    qed
  qed
qed


lemma unvisited_finite: "finite (unvisited g)"
  by (simp add: unvisited_def)

lemma unvisited_enter:
  "u \<in> unvisited g \<Longrightarrow> unvisited (enter_file g u) = unvisited g - {u}"
  by (auto simp: unvisited_def files_enter_nth split: if_splits)

lemma unvisited_extends:
  assumes "extends g o1 g' o2"
  shows "unvisited g' \<subseteq> unvisited g"
  using extendsD(2) [OF assms] extendsD(3) [OF assms]
  by (auto simp: unvisited_def)

lemma card_unvisited_extends:
  assumes "extends g o1 g' o2"
  shows "card (unvisited g') \<le> card (unvisited g)"
  by (rule card_mono [OF unvisited_finite unvisited_extends [OF assms]])

lemma dfs_fuel:
  "card (unvisited g) \<le> fuel \<Longrightarrow> u \<in> unvisited g \<Longrightarrow> \<not> in_stack (files g ! u)
     \<Longrightarrow> topological_sort_dfs fuel psz g u order \<noteq> None"
  "card (unvisited g) \<le> fuel \<Longrightarrow> visit_includes fuel psz g u incs order \<noteq> None"
proof (induction fuel psz g u order and fuel psz g u incs order
       rule: topological_sort_dfs_visit_includes.induct)
  case (1 path_size graph u order)
  then have "card (unvisited graph) = 0" by simp
  then have "unvisited graph = {}" using unvisited_finite by simp
  with "1.prems"(2) show ?case by simp
next
  case (2 fuel path_size graph u order)
  have "card (unvisited (enter_file graph u)) = card (unvisited graph) - 1"
    using "2.prems"(2) by (simp add: unvisited_enter)
  then have "card (unvisited (enter_file graph u)) \<le> fuel" using "2.prems"(1) by simp
  then have "visit_includes fuel path_size (enter_file graph u) u
               (include_list (files graph ! u)) order \<noteq> None"
    by (rule "2.IH")
  then show ?case by (auto split: option.splits sum.splits)
next
  case (3 fuel path_size graph u order)
  then show ?case by simp
next
  case (4 fuel path_size graph u inc rest order)
  show ?case
  proof (cases "dependency_graph_find_file graph inc")
    case None
    then show ?thesis using "4.IH"(1) [OF None "4.prems"] by simp
  next
    case (Some dep)
    have dep: "dep < length (files graph)" using find_file_bound [OF Some] by simp
    show ?thesis
    proof (cases "in_stack (files graph ! dep)")
      case True
      with Some show ?thesis by simp
    next
      case ns: False
      show ?thesis
      proof (cases "visited (files graph ! dep)")
        case True
        then show ?thesis using Some ns "4.IH"(4) [OF Some ns _ "4.prems"] by simp
      next
        case nv: False
        have du: "dep \<in> unvisited graph" using dep nv by (simp add: unvisited_def)
        have d: "topological_sort_dfs fuel path_size graph dep order \<noteq> None"
          by (rule "4.IH"(2) [OF Some ns nv "4.prems" du ns])
        show ?thesis
        proof (cases "topological_sort_dfs fuel path_size graph dep order")
          case None
          with d show ?thesis by simp
        next
          case (Some r)
          note res = this
          show ?thesis
          proof (cases r)
            case (Inl trace)
            with res \<open>dependency_graph_find_file graph inc = Some dep\<close> ns nv show ?thesis by simp
          next
            case (Inr go)
            obtain g1 order1 where go: "go = (g1, order1)" by (cases go)
            have dd: "topological_sort_dfs fuel path_size graph dep order = Some (Inr (g1, order1))"
              using res Inr go by simp
            have "extends graph order g1 order1" by (rule dfs_extends(1) [OF ns dd])
            then have c: "card (unvisited g1) \<le> fuel"
              using card_unvisited_extends "4.prems" by (meson le_trans)
            have "visit_includes fuel path_size g1 u rest order1 \<noteq> None"
              by (rule "4.IH"(3) [OF \<open>dependency_graph_find_file graph inc = Some dep\<close> ns nv dd refl refl c])
            then show ?thesis
              using dd \<open>dependency_graph_find_file graph inc = Some dep\<close> ns nv by simp
          qed
        qed
      qed
    qed
  qed
qed


lemma marks_enter:
  assumes "i < length (files g)"
  shows "visited (files (enter_file g u) ! i) \<longleftrightarrow> i = u \<or> visited (files g ! i)"
    and "in_stack (files (enter_file g u) ! i) \<longleftrightarrow> i = u \<or> in_stack (files g ! i)"
  using assms by (auto simp: files_enter_nth)

lemma marks_leave:
  assumes "i < length (files g)"
  shows "visited (files (leave_file g u k) ! i) \<longleftrightarrow> visited (files g ! i)"
    and "in_stack (files (leave_file g u k) ! i) \<longleftrightarrow> i \<noteq> u \<and> in_stack (files g ! i)"
  using assms by (auto simp: files_leave_nth)

lemma sorted_so_farD:
  assumes "sorted_so_far g order"
  shows "distinct order"
    and "\<And>i. i \<in> set order \<longleftrightarrow>
            i < length (files g) \<and> visited (files g ! i) \<and> \<not> in_stack (files g ! i)"
    and "\<And>i. i < length (files g) \<Longrightarrow> in_stack (files g ! i) \<Longrightarrow> visited (files g ! i)"
    and "\<And>k inc dep. k < length order \<Longrightarrow> inc \<in> set (include_list (files g ! (order ! k)))
            \<Longrightarrow> dependency_graph_find_file g inc = Some dep \<Longrightarrow> dep \<in> set (take k order)"
  using assms unfolding sorted_so_far_def by blast+

lemma sorted_so_farI:
  assumes "distinct order"
    and "\<And>i. i \<in> set order \<longleftrightarrow>
            i < length (files g) \<and> visited (files g ! i) \<and> \<not> in_stack (files g ! i)"
    and "\<And>i. i < length (files g) \<Longrightarrow> in_stack (files g ! i) \<Longrightarrow> visited (files g ! i)"
    and "\<And>k inc dep. k < length order \<Longrightarrow> inc \<in> set (include_list (files g ! (order ! k)))
            \<Longrightarrow> dependency_graph_find_file g inc = Some dep \<Longrightarrow> dep \<in> set (take k order)"
  shows "sorted_so_far g order"
  using assms unfolding sorted_so_far_def by blast

lemma include_list_enter:
  "i < length (files g) \<Longrightarrow> include_list (files (enter_file g u) ! i) = include_list (files g ! i)"
  by (rule skeleton_nth(2) [OF skeleton_enter])

lemma include_list_leave:
  "i < length (files g) \<Longrightarrow> include_list (files (leave_file g u k) ! i) = include_list (files g ! i)"
  by (rule skeleton_nth(2) [OF skeleton_leave])

lemma find_file_enter:
  "dependency_graph_find_file (enter_file g u) p = dependency_graph_find_file g p"
  by (rule find_file_skeleton [OF skeleton_enter])

lemma find_file_leave:
  "dependency_graph_find_file (leave_file g u k) p = dependency_graph_find_file g p"
  by (rule find_file_skeleton [OF skeleton_leave])

lemma sorted_enter:
  assumes u: "u < length (files g)" and nv: "\<not> visited (files g ! u)"
      and S: "sorted_so_far g order"
  shows "sorted_so_far (enter_file g u) order"
proof (rule sorted_so_farI)
  show "distinct order" by (rule sorted_so_farD(1) [OF S])
next
  fix i
  have "u \<notin> set order" using sorted_so_farD(2) [OF S, of u] nv by simp
  then show "i \<in> set order \<longleftrightarrow>
            i < length (files (enter_file g u)) \<and> visited (files (enter_file g u) ! i)
            \<and> \<not> in_stack (files (enter_file g u) ! i)"
    using sorted_so_farD(2) [OF S, of i] by (auto simp: marks_enter)
next
  fix i assume "i < length (files (enter_file g u))" "in_stack (files (enter_file g u) ! i)"
  then show "visited (files (enter_file g u) ! i)"
    using sorted_so_farD(3) [OF S, of i] by (auto simp: marks_enter)
next
  fix k inc dep
  assume k: "k < length order"
     and inc: "inc \<in> set (include_list (files (enter_file g u) ! (order ! k)))"
     and f: "dependency_graph_find_file (enter_file g u) inc = Some dep"
  have "order ! k \<in> set order" using k by simp
  then have "order ! k < length (files g)" using sorted_so_farD(2) [OF S] by blast
  then have "inc \<in> set (include_list (files g ! (order ! k)))"
    using inc by (simp add: include_list_enter)
  then show "dep \<in> set (take k order)"
    using sorted_so_farD(4) [OF S k] f by (simp add: find_file_enter)
qed

lemma sorted_leave:
  assumes u: "u < length (files g)" and v: "visited (files g ! u)"
      and st: "in_stack (files g ! u)" and S: "sorted_so_far g order"
      and deps: "\<And>inc dep. inc \<in> set (include_list (files g ! u))
                   \<Longrightarrow> dependency_graph_find_file g inc = Some dep \<Longrightarrow> dep \<in> set order"
  shows "sorted_so_far (leave_file g u n) (order @ [u])"
proof (rule sorted_so_farI)
  have "u \<notin> set order" using sorted_so_farD(2) [OF S, of u] st by simp
  then show "distinct (order @ [u])" using sorted_so_farD(1) [OF S] by simp
next
  fix i
  show "i \<in> set (order @ [u]) \<longleftrightarrow>
            i < length (files (leave_file g u n)) \<and> visited (files (leave_file g u n) ! i)
            \<and> \<not> in_stack (files (leave_file g u n) ! i)"
    using sorted_so_farD(2) [OF S, of i] u v by (auto simp: marks_leave)
next
  fix i assume "i < length (files (leave_file g u n))" "in_stack (files (leave_file g u n) ! i)"
  then show "visited (files (leave_file g u n) ! i)"
    using sorted_so_farD(3) [OF S, of i] by (auto simp: marks_leave)
next
  fix k inc dep
  assume k: "k < length (order @ [u])"
     and inc: "inc \<in> set (include_list (files (leave_file g u n) ! ((order @ [u]) ! k)))"
     and f: "dependency_graph_find_file (leave_file g u n) inc = Some dep"
  have f': "dependency_graph_find_file g inc = Some dep" using f by (simp add: find_file_leave)
  show "dep \<in> set (take k (order @ [u]))"
  proof (cases "k < length order")
    case True
    have "order ! k \<in> set order" using True by simp
    then have "order ! k < length (files g)" using sorted_so_farD(2) [OF S] by blast
    then have "inc \<in> set (include_list (files g ! (order ! k)))"
      using inc True by (simp add: include_list_leave nth_append)
    then have "dep \<in> set (take k order)" using sorted_so_farD(4) [OF S True] f' by simp
    then show ?thesis using True by simp
  next
    case False
    then have keq: "k = length order" using k by simp
    then have "inc \<in> set (include_list (files g ! u))"
      using inc u by (simp add: include_list_leave)
    then have "dep \<in> set order" using deps f' by simp
    then show ?thesis using keq by simp
  qed
qed

lemma dfs_sorted:
  "u < length (files g) \<Longrightarrow> \<not> visited (files g ! u) \<Longrightarrow> sorted_so_far g order
     \<Longrightarrow> topological_sort_dfs fuel psz g u order = Some (Inr (g', order'))
     \<Longrightarrow> sorted_so_far g' order' \<and> u \<in> set order'"
  "u < length (files g) \<Longrightarrow> visited (files g ! u) \<Longrightarrow> in_stack (files g ! u)
     \<Longrightarrow> sorted_so_far g order
     \<Longrightarrow> visit_includes fuel psz g u incs order = Some (Inr (g', order'))
     \<Longrightarrow> sorted_so_far g' order'
         \<and> (\<forall>inc \<in> set incs. \<forall>dep. dependency_graph_find_file g inc = Some dep
                \<longrightarrow> dep \<in> set order')"
proof (induction fuel psz g u order and fuel psz g u incs order
       arbitrary: g' order' and g' order'
       rule: topological_sort_dfs_visit_includes.induct)
  case (1 path_size graph u order)
  then show ?case by simp
next
  case (2 fuel path_size graph u order)
  note u = "2.prems"(1) and nv = "2.prems"(2) and S = "2.prems"(3)
  from "2.prems"(4) obtain g1 order1 where
    v: "visit_includes fuel path_size (enter_file graph u) u
          (include_list (files graph ! u)) order = Some (Inr (g1, order1))"
    and g': "g' = leave_file g1 u (length order1)" and o': "order' = order1 @ [u]"
    by (auto split: option.splits sum.splits)
  have u1: "u < length (files (enter_file graph u))" using u by simp
  have v1: "visited (files (enter_file graph u) ! u)"
    and s1: "in_stack (files (enter_file graph u) ! u)"
    using u by (simp_all add: marks_enter)
  have S1: "sorted_so_far (enter_file graph u) order" by (rule sorted_enter [OF u nv S])
  have r: "sorted_so_far g1 order1
           \<and> (\<forall>inc \<in> set (include_list (files graph ! u)). \<forall>dep.
                 dependency_graph_find_file (enter_file graph u) inc = Some dep
                 \<longrightarrow> dep \<in> set order1)"
    by (rule "2.IH" [OF u1 v1 s1 S1 v])
  have e: "extends (enter_file graph u) order g1 order1" by (rule dfs_extends(2) [OF v])
  have ug1: "u < length (files g1)" using extendsD(2) [OF e] u by simp
  have vg1: "visited (files g1 ! u)" using extendsD(3) [OF e u1 v1] .
  have sg1: "in_stack (files g1 ! u)" using extendsD(4) [OF e u1] s1 by simp
  have sk: "skeleton g1 = skeleton graph" using extendsD(1) [OF e] by (simp add: skeleton_enter)
  have il: "include_list (files g1 ! u) = include_list (files graph ! u)"
    by (rule skeleton_nth(2) [OF sk u])
  have "sorted_so_far (leave_file g1 u (length order1)) (order1 @ [u])"
  proof (rule sorted_leave [OF ug1 vg1 sg1])
    show "sorted_so_far g1 order1" using r by blast
  next
    fix inc dep
    assume "inc \<in> set (include_list (files g1 ! u))"
       and "dependency_graph_find_file g1 inc = Some dep"
    then have "inc \<in> set (include_list (files graph ! u))"
      and "dependency_graph_find_file (enter_file graph u) inc = Some dep"
      using il find_file_skeleton [OF extendsD(1) [OF e]] by simp_all
    then show "dep \<in> set order1" using r by blast
  qed
  then show ?case unfolding g' o' by simp
next
  case (3 fuel path_size graph u order)
  then show ?case by simp
next
  case (4 fuel path_size graph u inc rest order)
  note u = "4.prems"(1) and vu = "4.prems"(2) and su = "4.prems"(3) and S = "4.prems"(4)
  show ?case
  proof (cases "dependency_graph_find_file graph inc")
    case None
    with "4.prems"(5) have
      "visit_includes fuel path_size graph u rest order = Some (Inr (g', order'))" by simp
    from "4.IH"(1) [OF None u vu su S this] None show ?thesis by simp
  next
    case (Some dep)
    have dep: "dep < length (files graph)" using find_file_bound [OF Some] by simp
    show ?thesis
    proof (cases "in_stack (files graph ! dep)")
      case True
      with Some "4.prems"(5) show ?thesis by simp
    next
      case ns: False
      show ?thesis
      proof (cases "visited (files graph ! dep)")
        case True
        with Some ns "4.prems"(5) have r:
          "visit_includes fuel path_size graph u rest order = Some (Inr (g', order'))" by simp
        have ih: "sorted_so_far g' order'
           \<and> (\<forall>inc \<in> set rest. \<forall>dep. dependency_graph_find_file graph inc = Some dep
                \<longrightarrow> dep \<in> set order')"
          using "4.IH"(4) [OF Some ns _ u vu su S r] True by simp
        have "dep \<in> set order" using sorted_so_farD(2) [OF S, of dep] dep True ns by simp
        moreover obtain ext where "order' = order @ ext"
          using extendsD(5) [OF dfs_extends(2) [OF r]] by blast
        ultimately have "dep \<in> set order'" by simp
        with ih Some show ?thesis by simp
      next
        case nv: False
        from Some ns nv "4.prems"(5) obtain g1 order1 where
          d: "topological_sort_dfs fuel path_size graph dep order = Some (Inr (g1, order1))"
          and r: "visit_includes fuel path_size g1 u rest order1 = Some (Inr (g', order'))"
          by (auto split: option.splits sum.splits)
        have d1: "sorted_so_far g1 order1 \<and> dep \<in> set order1"
          by (rule "4.IH"(2) [OF Some ns nv dep nv S d])
        have e1: "extends graph order g1 order1" by (rule dfs_extends(1) [OF ns d])
        have ug1: "u < length (files g1)" using extendsD(2) [OF e1] u by simp
        have vg1: "visited (files g1 ! u)" using extendsD(3) [OF e1 u vu] .
        have sg1: "in_stack (files g1 ! u)" using extendsD(4) [OF e1 u] su by simp
        have S1: "sorted_so_far g1 order1" using d1 by blast
        have ih: "sorted_so_far g' order'
           \<and> (\<forall>inc \<in> set rest. \<forall>dep. dependency_graph_find_file g1 inc = Some dep
                \<longrightarrow> dep \<in> set order')"
          by (rule "4.IH"(3) [OF Some ns nv d refl refl ug1 vg1 sg1 S1 r])
        obtain ext where "order' = order1 @ ext"
          using extendsD(5) [OF dfs_extends(2) [OF r]] by blast
        then have "dep \<in> set order'" using d1 by simp
        with ih Some show ?thesis
          by (simp add: find_file_skeleton [OF extendsD(1) [OF e1]])
      qed
    qed
  qed
qed


lemma no_stack_extends:
  assumes e: "extends g o1 g' o2"
      and n: "\<forall>i < length (files g). \<not> in_stack (files g ! i)"
  shows "\<forall>i < length (files g'). \<not> in_stack (files g' ! i)"
  using extendsD(2) [OF e] extendsD(4) [OF e] n by simp

lemma card_unvisited_le: "card (unvisited g) \<le> length (files g)"
proof -
  have "unvisited g \<subseteq> {..< length (files g)}" by (auto simp: unvisited_def)
  then have "card (unvisited g) \<le> card {..< length (files g)}"
    by (rule card_mono [rotated]) simp
  then show ?thesis by simp
qed

lemma sort_pass_total:
  "\<forall>i \<in> set is. i < length (files g) \<Longrightarrow> \<forall>i < length (files g). \<not> in_stack (files g ! i)
     \<Longrightarrow> sort_pass hdr is g order \<noteq> None"
proof (induction "is" arbitrary: g order)
  case Nil
  then show ?case by simp
next
  case (Cons i "is")
  have i: "i < length (files g)" using Cons.prems(1) by simp
  have rest: "\<forall>j \<in> set is. j < length (files g)" using Cons.prems(1) by simp
  show ?case
  proof (cases "is_header (files g ! i) \<noteq> hdr \<or> visited (files g ! i)")
    case True
    then show ?thesis using Cons.IH [OF rest Cons.prems(2)] by auto
  next
    case False
    then have h: "is_header (files g ! i) = hdr" and nv: "\<not> visited (files g ! i)" by auto
    have ns: "\<not> in_stack (files g ! i)" using Cons.prems(2) i by simp
    have iu: "i \<in> unvisited g" using i nv by (simp add: unvisited_def)
    have d: "topological_sort_dfs (length (files g)) (MAX_PATH_LENGTH * 2) g i order \<noteq> None"
      by (rule dfs_fuel(1) [OF card_unvisited_le iu ns])
    show ?thesis
    proof (cases "topological_sort_dfs (length (files g)) (MAX_PATH_LENGTH * 2) g i order")
      case None
      with d show ?thesis by simp
    next
      case (Some r)
      show ?thesis
      proof (cases r)
        case (Inl trace)
        with Some h nv show ?thesis by simp
      next
        case (Inr go)
        obtain g1 order1 where go: "go = (g1, order1)" by (cases go)
        have dd: "topological_sort_dfs (length (files g)) (MAX_PATH_LENGTH * 2) g i order
                    = Some (Inr (g1, order1))" using Some Inr go by simp
        have e: "extends g order g1 order1" by (rule dfs_extends(1) [OF ns dd])
        have "sort_pass hdr is g1 order1 \<noteq> None"
        proof (rule Cons.IH)
          show "\<forall>j \<in> set is. j < length (files g1)" using rest extendsD(2) [OF e] by simp
          show "\<forall>i < length (files g1). \<not> in_stack (files g1 ! i)"
            by (rule no_stack_extends [OF e Cons.prems(2)])
        qed
        then show ?thesis using dd h nv by simp
      qed
    qed
  qed
qed

lemma sort_pass_sorted:
  "\<forall>i \<in> set is. i < length (files g) \<Longrightarrow> sorted_so_far g order
     \<Longrightarrow> \<forall>i < length (files g). \<not> in_stack (files g ! i)
     \<Longrightarrow> sort_pass hdr is g order = Some (Inr (g', order'))
     \<Longrightarrow> sorted_so_far g' order' \<and> extends g order g' order'
         \<and> (\<forall>i \<in> set is. is_header (files g ! i) = hdr \<longrightarrow> visited (files g' ! i))"
proof (induction "is" arbitrary: g order)
  case Nil
  then show ?case by (simp add: extends_refl)
next
  case (Cons i "is")
  have i: "i < length (files g)" using Cons.prems(1) by simp
  have rest: "\<forall>j \<in> set is. j < length (files g)" using Cons.prems(1) by simp
  show ?case
  proof (cases "is_header (files g ! i) \<noteq> hdr \<or> visited (files g ! i)")
    case True
    then have "sort_pass hdr is g order = Some (Inr (g', order'))"
      using Cons.prems(4) by (auto split: if_splits)
    from Cons.IH [OF rest Cons.prems(2) Cons.prems(3) this]
    have r: "sorted_so_far g' order'" "extends g order g' order'"
       "\<forall>i \<in> set is. is_header (files g ! i) = hdr \<longrightarrow> visited (files g' ! i)" by blast+
    have "is_header (files g ! i) = hdr \<longrightarrow> visited (files g' ! i)"
      using True extendsD(3) [OF r(2) i] by blast
    with r show ?thesis by simp
  next
    case False
    then have h: "is_header (files g ! i) = hdr" and nv: "\<not> visited (files g ! i)" by auto
    have ns: "\<not> in_stack (files g ! i)" using Cons.prems(3) i by simp
    from Cons.prems(4) h nv obtain g1 order1 where
      dd: "topological_sort_dfs (length (files g)) (MAX_PATH_LENGTH * 2) g i order
             = Some (Inr (g1, order1))"
      and r: "sort_pass hdr is g1 order1 = Some (Inr (g', order'))"
      by (auto split: option.splits sum.splits)
    have e: "extends g order g1 order1" by (rule dfs_extends(1) [OF ns dd])
    have S1: "sorted_so_far g1 order1" and i1: "i \<in> set order1"
      using dfs_sorted(1) [OF i nv Cons.prems(2) dd] by blast+
    have l1: "length (files g1) = length (files g)" by (rule extendsD(2) [OF e])
    have rest1: "\<forall>j \<in> set is. j < length (files g1)" using rest l1 by simp
    have n1: "\<forall>i < length (files g1). \<not> in_stack (files g1 ! i)"
      by (rule no_stack_extends [OF e Cons.prems(3)])
    from Cons.IH [OF rest1 S1 n1 r]
    have r': "sorted_so_far g' order'" "extends g1 order1 g' order'"
       "\<forall>j \<in> set is. is_header (files g1 ! j) = hdr \<longrightarrow> visited (files g' ! j)" by blast+
    have e': "extends g order g' order'" by (rule extends_trans [OF e r'(2)])
    have "visited (files g1 ! i)" using sorted_so_farD(2) [OF S1, of i] i1 by simp
    then have vi: "visited (files g' ! i)" using extendsD(3) [OF r'(2), of i] i l1 by simp
    have "\<forall>j \<in> set is. is_header (files g ! j) = hdr \<longrightarrow> visited (files g' ! j)"
    proof
      fix j assume j: "j \<in> set is"
      then have "j < length (files g)" using rest by simp
      then have "is_header (files g1 ! j) = is_header (files g ! j)"
        by (rule skeleton_nth(3) [OF extendsD(1) [OF e]])
      then show "is_header (files g ! j) = hdr \<longrightarrow> visited (files g' ! j)"
        using r'(3) j by simp
    qed
    with r'(1) e' vi show ?thesis by simp
  qed
qed

lemma sorted_reset: "sorted_so_far (reset_marks g) []"
  by (rule sorted_so_farI) (auto simp: reset_marks_def)

lemma no_stack_reset: "\<forall>i < length (files (reset_marks g)). \<not> in_stack (files (reset_marks g) ! i)"
  by (simp add: reset_marks_def)

lemma length_reset [simp]: "length (files (reset_marks g)) = length (files g)"
  by (simp add: reset_marks_def)

lemma topological_sort_total: "dependency_graph_topological_sort g \<noteq> None"
proof -
  let ?g0 = "reset_marks g"
  have a: "\<forall>i \<in> set [0 ..< length (files g)]. i < length (files ?g0)" by simp
  have p1: "sort_pass True [0 ..< length (files g)] ?g0 [] \<noteq> None"
    by (rule sort_pass_total [OF a no_stack_reset])
  show ?thesis
  proof (cases "sort_pass True [0 ..< length (files g)] ?g0 []")
    case None
    with p1 show ?thesis by simp
  next
    case (Some r)
    show ?thesis
    proof (cases r)
      case (Inl trace)
      with Some show ?thesis by (simp add: dependency_graph_topological_sort_def)
    next
      case (Inr go)
      obtain g1 order1 where go: "go = (g1, order1)" by (cases go)
      have r1: "sort_pass True [0 ..< length (files g)] ?g0 [] = Some (Inr (g1, order1))"
        using Some Inr go by simp
      have e: "extends ?g0 [] g1 order1"
        using sort_pass_sorted [OF a sorted_reset no_stack_reset r1] by blast
      have "sort_pass False [0 ..< length (files g1)] g1 order1 \<noteq> None"
        by (rule sort_pass_total) (simp, rule no_stack_extends [OF e no_stack_reset])
      then show ?thesis using r1 by (simp add: dependency_graph_topological_sort_def)
    qed
  qed
qed

lemma topological_sort_result:
  assumes "dependency_graph_topological_sort g = Some (Inr (g', order))"
  shows "sorted_so_far g' order" and "skeleton g' = skeleton g"
    and "set order = {..< length (files g)}"
proof -
  let ?g0 = "reset_marks g"
  have a: "\<forall>i \<in> set [0 ..< length (files g)]. i < length (files ?g0)" by simp
  from assms obtain g1 order1 where
    r1: "sort_pass True [0 ..< length (files g)] ?g0 [] = Some (Inr (g1, order1))"
    and r2: "sort_pass False [0 ..< length (files g1)] g1 order1 = Some (Inr (g', order))"
    by (auto simp: dependency_graph_topological_sort_def split: option.splits sum.splits)
  from sort_pass_sorted [OF a sorted_reset no_stack_reset r1]
  have S1: "sorted_so_far g1 order1" and e1: "extends ?g0 [] g1 order1"
    and v1: "\<forall>i \<in> set [0 ..< length (files g)]. is_header (files ?g0 ! i) = True
                \<longrightarrow> visited (files g1 ! i)" by blast+
  have l1: "length (files g1) = length (files g)" using extendsD(2) [OF e1] by simp
  have n1: "\<forall>i < length (files g1). \<not> in_stack (files g1 ! i)"
    by (rule no_stack_extends [OF e1 no_stack_reset])
  have b: "\<forall>i \<in> set [0 ..< length (files g1)]. i < length (files g1)" by simp
  from sort_pass_sorted [OF b S1 n1 r2]
  have S2: "sorted_so_far g' order" and e2: "extends g1 order1 g' order"
    and v2: "\<forall>i \<in> set [0 ..< length (files g1)]. is_header (files g1 ! i) = False
                \<longrightarrow> visited (files g' ! i)" by blast+
  have l2: "length (files g') = length (files g)" using extendsD(2) [OF e2] l1 by simp
  have n2: "\<forall>i < length (files g'). \<not> in_stack (files g' ! i)"
    by (rule no_stack_extends [OF e2 n1])
  show "sorted_so_far g' order" by (rule S2)
  show sk: "skeleton g' = skeleton g"
    using extendsD(1) [OF e2] extendsD(1) [OF e1] by (simp add: skeleton_reset)
  have "\<forall>i < length (files g). visited (files g' ! i)"
  proof (intro allI impI)
    fix i assume i: "i < length (files g)"
    have h: "is_header (files g1 ! i) = is_header (files ?g0 ! i)"
      using skeleton_nth(3) [OF extendsD(1) [OF e1], of i] i by simp
    show "visited (files g' ! i)"
    proof (cases "is_header (files ?g0 ! i)")
      case True
      then have "visited (files g1 ! i)" using v1 i by simp
      then show ?thesis using extendsD(3) [OF e2, of i] i l1 by simp
    next
      case False
      then show ?thesis using v2 h i l1 by simp
    qed
  qed
  then show "set order = {..< length (files g)}"
    using sorted_so_farD(2) [OF S2] n2 l2 by auto
qed


subsection \<open>Topological sorter: order soundness\<close>

lemmas sort_eval_defs =
  dependency_graph_topological_sort_def reset_marks_def unit_of_def upt_rec
  enter_file_def leave_file_def dependency_graph_find_file_def

lemma s2_graph_sorted:
  "\<exists>graph'. dependency_graph_topological_sort s2_graph = Some (Inr (graph', [2, 1, 0]))"
  by (simp add: s2_graph_def sort_eval_defs)

text \<open>
  C2. Whenever \<^verbatim>\<open>dependency_graph_topological_sort\<close> succeeds, the order lists every
  unit once, and for every unit \<open>u\<close> and every entry \<open>inc\<close> of its include list that the
  registry resolves to a unit \<open>dep\<close>, the position of \<open>dep\<close> in the order is strictly less
  than the position of \<open>u\<close>. (The sorter never runs out of the recursion bound: lemma
  \<open>topological_sort_total\<close>.)
\<close>

theorem topological_sort_order_sound:
  assumes "dependency_graph_topological_sort graph = Some (Inr (graph', order))"
      and "u < length (files graph)"
      and "inc \<in> set (include_list (files graph ! u))"
      and "dependency_graph_find_file graph inc = Some dep"
  shows "distinct order \<and> (\<exists>pd pu. pd < pu \<and> pu < length order \<and> order ! pd = dep \<and> order ! pu = u)"
proof -
  note S = topological_sort_result(1) [OF assms(1)]
  note sk = topological_sort_result(2) [OF assms(1)]
  have "u \<in> set order" using topological_sort_result(3) [OF assms(1)] assms(2) by simp
  then obtain pu where pu: "pu < length order" "order ! pu = u"
    by (auto simp: in_set_conv_nth)
  have "inc \<in> set (include_list (files graph' ! (order ! pu)))"
    using assms(3) pu(2) skeleton_nth(2) [OF sk assms(2)] by simp
  moreover have "dependency_graph_find_file graph' inc = Some dep"
    using assms(4) find_file_skeleton [OF sk] by simp
  ultimately have "dep \<in> set (take pu order)" using sorted_so_farD(4) [OF S pu(1)] by blast
  then obtain pd where "pd < length (take pu order)" "take pu order ! pd = dep"
    by (auto simp: in_set_conv_nth)
  then have "pd < pu" "order ! pd = dep" using pu(1) by simp_all
  with pu sorted_so_farD(1) [OF S] show ?thesis by blast
qed

theorem topological_sort_order_sound_witness:
  "\<exists>graph'. dependency_graph_topological_sort s2_graph = Some (Inr (graph', [2, 1, 0]))
     \<and> (0::nat) < length (files s2_graph)
     \<and> ''proj/math.h'' \<in> set (include_list (files s2_graph ! 0))
     \<and> dependency_graph_find_file s2_graph ''proj/math.h'' = Some 1
     \<and> distinct [2, 1, 0::nat]
     \<and> (\<exists>pd pu. pd < pu \<and> pu < length [2, 1, 0::nat]
            \<and> [2, 1, 0::nat] ! pd = 1 \<and> [2, 1, 0::nat] ! pu = 0)"
proof -
  obtain graph' where s: "dependency_graph_topological_sort s2_graph = Some (Inr (graph', [2, 1, 0]))"
    using s2_graph_sorted by blast
  have a: "(0::nat) < length (files s2_graph)" by (simp add: s2_graph_def)
  have b: "''proj/math.h'' \<in> set (include_list (files s2_graph ! 0))"
    by (simp add: s2_graph_def unit_of_def)
  have c: "dependency_graph_find_file s2_graph ''proj/math.h'' = Some 1"
    by (simp add: s2_graph_def unit_of_def dependency_graph_find_file_def)
  from topological_sort_order_sound [OF s a b c] s a b c show ?thesis by blast
qed


subsection \<open>Topological sorter: header-first\<close>

lemma header_at_skeleton:
  assumes "skeleton g' = skeleton g"
  shows "header_at g' k = header_at g k"
  using skeleton_length [OF assms] skeleton_nth(3) [OF assms, of k]
  by (auto simp: header_at_def)

lemma headers_include_headersD:
  assumes "headers_include_headers g" "header_at g i"
      and "inc \<in> set (include_list (files g ! i))"
      and "dependency_graph_find_file g inc = Some dep"
  shows "header_at g dep"
  using assms find_file_bound [OF assms(4)]
  unfolding headers_include_headers_def header_at_def by blast

lemma headers_include_headers_skeleton:
  assumes sk: "skeleton g' = skeleton g" and H: "headers_include_headers g"
  shows "headers_include_headers g'"
  unfolding headers_include_headers_def
proof (intro allI impI ballI)
  fix i inc dep
  assume i: "i < length (files g')" and h: "is_header (files g' ! i)"
     and inc: "inc \<in> set (include_list (files g' ! i))"
     and f: "dependency_graph_find_file g' inc = Some dep"
  have ig: "i < length (files g)" using i skeleton_length [OF sk] by simp
  have "header_at g i" using h ig skeleton_nth(3) [OF sk ig] by (simp add: header_at_def)
  moreover have "inc \<in> set (include_list (files g ! i))"
    using inc skeleton_nth(2) [OF sk ig] by simp
  moreover have "dependency_graph_find_file g inc = Some dep"
    using f find_file_skeleton [OF sk] by simp
  ultimately have "header_at g dep" using H by (rule headers_include_headersD [rotated])
  then have "header_at g' dep" by (simp add: header_at_skeleton [OF sk])
  then show "is_header (files g' ! dep)" by (simp add: header_at_def)
qed

lemma dfs_headers:
  "headers_include_headers g \<Longrightarrow> header_at g u \<Longrightarrow> \<not> in_stack (files g ! u)
     \<Longrightarrow> \<forall>k \<in> set order. header_at g k
     \<Longrightarrow> topological_sort_dfs fuel psz g u order = Some (Inr (g', order'))
     \<Longrightarrow> \<forall>k \<in> set order'. header_at g k"
  "headers_include_headers g
     \<Longrightarrow> \<forall>inc \<in> set incs. \<forall>dep. dependency_graph_find_file g inc = Some dep
            \<longrightarrow> header_at g dep
     \<Longrightarrow> \<forall>k \<in> set order. header_at g k
     \<Longrightarrow> visit_includes fuel psz g u incs order = Some (Inr (g', order'))
     \<Longrightarrow> \<forall>k \<in> set order'. header_at g k"
proof (induction fuel psz g u order and fuel psz g u incs order
       arbitrary: g' order' and g' order'
       rule: topological_sort_dfs_visit_includes.induct)
  case (1 path_size graph u order)
  then show ?case by simp
next
  case (2 fuel path_size graph u order)
  note H = "2.prems"(1) and hu = "2.prems"(2) and O = "2.prems"(4)
  from "2.prems"(5) obtain g1 order1 where
    v: "visit_includes fuel path_size (enter_file graph u) u
          (include_list (files graph ! u)) order = Some (Inr (g1, order1))"
    and o': "order' = order1 @ [u]"
    by (auto split: option.splits sum.splits)
  have sk: "skeleton (enter_file graph u) = skeleton graph" by (rule skeleton_enter)
  have H0: "headers_include_headers (enter_file graph u)"
    by (rule headers_include_headers_skeleton [OF sk H])
  have I0: "\<forall>inc \<in> set (include_list (files graph ! u)). \<forall>dep.
              dependency_graph_find_file (enter_file graph u) inc = Some dep
              \<longrightarrow> header_at (enter_file graph u) dep"
    using headers_include_headersD [OF H hu]
    by (simp add: find_file_enter header_at_skeleton [OF sk])
  have O0: "\<forall>k \<in> set order. header_at (enter_file graph u) k"
    using O by (simp add: header_at_skeleton [OF sk])
  have "\<forall>k \<in> set order1. header_at (enter_file graph u) k"
    by (rule "2.IH" [OF H0 I0 O0 v])
  then have "\<forall>k \<in> set order1. header_at graph k" by (simp add: header_at_skeleton [OF sk])
  then show ?case using hu o' by simp
next
  case (3 fuel path_size graph u order)
  then show ?case by simp
next
  case (4 fuel path_size graph u inc rest order)
  note H = "4.prems"(1) and I = "4.prems"(2) and O = "4.prems"(3)
  have Irest: "\<forall>inc \<in> set rest. \<forall>dep. dependency_graph_find_file graph inc = Some dep
                 \<longrightarrow> header_at graph dep" using I by simp
  show ?case
  proof (cases "dependency_graph_find_file graph inc")
    case None
    with "4.prems"(4) have
      "visit_includes fuel path_size graph u rest order = Some (Inr (g', order'))" by simp
    from "4.IH"(1) [OF None H Irest O this] show ?thesis .
  next
    case (Some dep)
    have hd: "header_at graph dep" using I Some by simp
    show ?thesis
    proof (cases "in_stack (files graph ! dep)")
      case True
      with Some "4.prems"(4) show ?thesis by simp
    next
      case ns: False
      show ?thesis
      proof (cases "visited (files graph ! dep)")
        case True
        with Some ns "4.prems"(4) have r:
          "visit_includes fuel path_size graph u rest order = Some (Inr (g', order'))" by simp
        show ?thesis using "4.IH"(4) [OF Some ns _ H Irest O r] True by simp
      next
        case nv: False
        from Some ns nv "4.prems"(4) obtain g1 order1 where
          d: "topological_sort_dfs fuel path_size graph dep order = Some (Inr (g1, order1))"
          and r: "visit_includes fuel path_size g1 u rest order1 = Some (Inr (g', order'))"
          by (auto split: option.splits sum.splits)
        have O1: "\<forall>k \<in> set order1. header_at graph k"
          by (rule "4.IH"(2) [OF Some ns nv H hd ns O d])
        have sk: "skeleton g1 = skeleton graph"
          by (rule extendsD(1) [OF dfs_extends(1) [OF ns d]])
        have H1: "headers_include_headers g1" by (rule headers_include_headers_skeleton [OF sk H])
        have I1: "\<forall>inc \<in> set rest. \<forall>dep. dependency_graph_find_file g1 inc = Some dep
                 \<longrightarrow> header_at g1 dep"
          using Irest by (simp add: find_file_skeleton [OF sk] header_at_skeleton [OF sk])
        have O1': "\<forall>k \<in> set order1. header_at g1 k"
          using O1 by (simp add: header_at_skeleton [OF sk])
        have "\<forall>k \<in> set order'. header_at g1 k"
          by (rule "4.IH"(3) [OF Some ns nv d refl refl H1 I1 O1' r])
        then show ?thesis by (simp add: header_at_skeleton [OF sk])
      qed
    qed
  qed
qed

lemma sort_pass_headers:
  "headers_include_headers g \<Longrightarrow> \<forall>i \<in> set is. i < length (files g)
     \<Longrightarrow> \<forall>i < length (files g). \<not> in_stack (files g ! i)
     \<Longrightarrow> \<forall>k \<in> set order. header_at g k
     \<Longrightarrow> sort_pass True is g order = Some (Inr (g', order'))
     \<Longrightarrow> \<forall>k \<in> set order'. header_at g k"
proof (induction "is" arbitrary: g order)
  case Nil
  then show ?case by simp
next
  case (Cons i "is")
  have i: "i < length (files g)" using Cons.prems(2) by simp
  have rest: "\<forall>j \<in> set is. j < length (files g)" using Cons.prems(2) by simp
  show ?case
  proof (cases "is_header (files g ! i) \<noteq> True \<or> visited (files g ! i)")
    case True
    then have "sort_pass True is g order = Some (Inr (g', order'))"
      using Cons.prems(5) by (auto split: if_splits)
    from Cons.IH [OF Cons.prems(1) rest Cons.prems(3) Cons.prems(4) this] show ?thesis .
  next
    case False
    then have h: "is_header (files g ! i)" and nv: "\<not> visited (files g ! i)" by auto
    have ns: "\<not> in_stack (files g ! i)" using Cons.prems(3) i by simp
    have hi: "header_at g i" using h i by (simp add: header_at_def)
    from Cons.prems(5) h nv obtain g1 order1 where
      dd: "topological_sort_dfs (length (files g)) (MAX_PATH_LENGTH * 2) g i order
             = Some (Inr (g1, order1))"
      and r: "sort_pass True is g1 order1 = Some (Inr (g', order'))"
      by (auto split: option.splits sum.splits)
    have e: "extends g order g1 order1" by (rule dfs_extends(1) [OF ns dd])
    have sk: "skeleton g1 = skeleton g" by (rule extendsD(1) [OF e])
    have O1: "\<forall>k \<in> set order1. header_at g k"
      by (rule dfs_headers(1) [OF Cons.prems(1) hi ns Cons.prems(4) dd])
    have "\<forall>k \<in> set order'. header_at g1 k"
    proof (rule Cons.IH [OF _ _ _ _ r])
      show "headers_include_headers g1"
        by (rule headers_include_headers_skeleton [OF sk Cons.prems(1)])
      show "\<forall>j \<in> set is. j < length (files g1)" using rest extendsD(2) [OF e] by simp
      show "\<forall>i < length (files g1). \<not> in_stack (files g1 ! i)"
        by (rule no_stack_extends [OF e Cons.prems(3)])
      show "\<forall>k \<in> set order1. header_at g1 k" using O1 by (simp add: header_at_skeleton [OF sk])
    qed
    then show ?thesis by (simp add: header_at_skeleton [OF sk])
  qed
qed

text \<open>
  C6, as stated, fails: a header whose include list resolves to a source unit is a root of
  the first pass, and the traversal appends the included source before the header. For
  \<^verbatim>\<open>list.h\<close> including \<^verbatim>\<open>list_impl.c\<close> the order is
  \<^verbatim>\<open>list_impl.c, list.h\<close>, whose first element is a source.
\<close>

theorem header_first_counterexample:
  "sorted_order header_with_body_graph = Some [1, 0]
   \<and> is_header (files header_with_body_graph ! 0)
   \<and> \<not> is_header (files header_with_body_graph ! hd [1, 0])"
  by (simp add: sorted_order_def header_with_body_graph_def sort_eval_defs)

text \<open>
  C6, amended. When the sort succeeds on a graph with at least one header, and every include
  of a header that resolves to a registered unit resolves to a header, the build order is not
  empty and its first element is a header.
\<close>

theorem header_first_when_headers_include_headers:
  assumes "dependency_graph_topological_sort graph = Some (Inr (graph', order))"
      and "\<exists>f \<in> set (files graph). is_header f"
      and "headers_include_headers graph"
  shows "order \<noteq> [] \<and> is_header (files graph ! hd order)"
proof -
  let ?g0 = "reset_marks graph"
  have a: "\<forall>i \<in> set [0 ..< length (files graph)]. i < length (files ?g0)" by simp
  from assms(1) obtain g1 order1 where
    r1: "sort_pass True [0 ..< length (files graph)] ?g0 [] = Some (Inr (g1, order1))"
    and r2: "sort_pass False [0 ..< length (files g1)] g1 order1 = Some (Inr (graph', order))"
    by (auto simp: dependency_graph_topological_sort_def split: option.splits sum.splits)
  from sort_pass_sorted [OF a sorted_reset no_stack_reset r1]
  have S1: "sorted_so_far g1 order1" and e1: "extends ?g0 [] g1 order1"
    and v1: "\<forall>i \<in> set [0 ..< length (files graph)]. is_header (files ?g0 ! i) = True
                \<longrightarrow> visited (files g1 ! i)" by blast+
  have sk0: "skeleton ?g0 = skeleton graph" by (rule skeleton_reset)
  have l1: "length (files g1) = length (files graph)" using extendsD(2) [OF e1] by simp
  have n1: "\<forall>i < length (files g1). \<not> in_stack (files g1 ! i)"
    by (rule no_stack_extends [OF e1 no_stack_reset])
  from assms(2) obtain i where i: "i < length (files graph)" and hi: "is_header (files graph ! i)"
    by (auto simp: in_set_conv_nth)
  have "is_header (files ?g0 ! i)" using hi skeleton_nth(3) [OF sk0 i] by simp
  then have "visited (files g1 ! i)" using v1 i by simp
  then have "i \<in> set order1" using sorted_so_farD(2) [OF S1, of i] n1 i l1 by simp
  then have ne: "order1 \<noteq> []" by auto
  have "\<forall>k \<in> set order1. header_at ?g0 k"
    by (rule sort_pass_headers [OF headers_include_headers_skeleton [OF sk0 assms(3)]
                                     a no_stack_reset _ r1]) simp
  then have "header_at graph (hd order1)" using ne by (simp add: header_at_skeleton [OF sk0])
  moreover have b: "\<forall>i \<in> set [0 ..< length (files g1)]. i < length (files g1)" by simp
  obtain ext where "order = order1 @ ext"
    using sort_pass_sorted [OF b S1 n1 r2] extendsD(5) by blast
  then have "order \<noteq> []" "hd order = hd order1" using ne by simp_all
  ultimately show ?thesis by (simp add: header_at_def)
qed

theorem header_first_when_headers_include_headers_witness:
  "\<exists>graph'. dependency_graph_topological_sort s2_graph = Some (Inr (graph', [2, 1, 0]))
     \<and> (\<exists>f \<in> set (files s2_graph). is_header f)
     \<and> headers_include_headers s2_graph
     \<and> [2, 1, 0::nat] \<noteq> [] \<and> is_header (files s2_graph ! hd [2, 1, 0])"
proof -
  obtain graph' where s: "dependency_graph_topological_sort s2_graph = Some (Inr (graph', [2, 1, 0]))"
    using s2_graph_sorted by blast
  have a: "\<exists>f \<in> set (files s2_graph). is_header f" by (simp add: s2_graph_def unit_of_def)
  have b: "headers_include_headers s2_graph"
    by (simp add: headers_include_headers_def s2_graph_def unit_of_def
                  dependency_graph_find_file_def less_Suc_eq all_conj_distrib)
  from header_first_when_headers_include_headers [OF s a b] s a b show ?thesis by blast
qed

subsection \<open>Include resolver\<close>

lemma hd_takeWhile: "takeWhile P xs \<noteq> [] \<Longrightarrow> P (hd (takeWhile P xs))"
  by (cases xs) (auto split: if_splits)

lemma hd_take_takeWhile:
  "take n (takeWhile P xs) \<noteq> [] \<Longrightarrow> P (hd (take n (takeWhile P xs)))"
proof -
  assume a: "take n (takeWhile P xs) \<noteq> []"
  then have "takeWhile P xs \<noteq> []" by auto
  moreover have "hd (take n (takeWhile P xs)) = hd (takeWhile P xs)"
    using a by (cases n; cases "takeWhile P xs") simp_all
  ultimately show ?thesis using hd_takeWhile by metis
qed

lemma directive_shape:
  assumes "(case xs of [] \<Rightarrow> None
            | c # p1 \<Rightarrow>
                if A c then None
                else (let p2 = f p1
                      in if B p2 then None
                         else (case g p2 of [] \<Rightarrow> None
                               | opening # p3 \<Rightarrow>
                                   if C opening
                                   then (let e = E opening in Some (opening, h e p3))
                                   else None))) = Some (q, n)"
  shows "\<exists>p3. n = h (E q) p3"
  using assms by (auto simp: Let_def split: list.splits if_splits)

text \<open>
  The name extracted from a quote-form directive never begins with a quote character, since
  the scanner has skipped the opening quote; so the guard of the search next to the
  referencing file is false for every quote-form directive, and the resolver goes straight
  to the include roots and then to the working directory.
\<close>

lemma quote_directive_name:
  assumes "scan_include_directive line = Some (CHR 0x22, include_name)"
  shows "include_name = [] \<or> hd include_name \<noteq> CHR 0x22"
proof -
  have "\<exists>p3. include_name = take (MAX_PATH_LENGTH - 1)
           (takeWhile (\<lambda>c. c \<noteq> (if CHR 0x22 = CHR 0x22 then CHR 0x22 else CHR ''>'')) p3)"
    by (rule directive_shape [where h = "\<lambda>e p3. take (MAX_PATH_LENGTH - 1) (takeWhile (\<lambda>c. c \<noteq> e) p3)"
                                and E = "\<lambda>opening. if opening = CHR 0x22 then CHR 0x22 else CHR ''>''",
                              OF assms [unfolded scan_include_directive_def]])
  then obtain p3 where
    "include_name = take (MAX_PATH_LENGTH - 1) (takeWhile (\<lambda>c. c \<noteq> CHR 0x22) p3)"
    by (auto simp only: if_True refl)
  then show ?thesis
    using hd_take_takeWhile [of "MAX_PATH_LENGTH - 1" "\<lambda>c. c \<noteq> CHR 0x22" p3] by auto
qed

lemma quote_directive_skips_referencing_directory:
  assumes "scan_include_directive line = Some (CHR 0x22, include_name)"
  shows "try_referencing_directory fs include_name referencing_file path_size = None"
    and "resolve_include fs graph include_name referencing_file path_size
           = (case try_include_paths fs (include_paths graph) include_name path_size of
                Some resolved_path \<Rightarrow> Some resolved_path
              | None \<Rightarrow> if file_exists fs include_name
                        then Some (take (path_size - 1) include_name) else None)"
proof -
  show a: "try_referencing_directory fs include_name referencing_file path_size = None"
    using quote_directive_name [OF assms] by (auto simp: try_referencing_directory_def)
  show "resolve_include fs graph include_name referencing_file path_size
           = (case try_include_paths fs (include_paths graph) include_name path_size of
                Some resolved_path \<Rightarrow> Some resolved_path
              | None \<Rightarrow> if file_exists fs include_name
                        then Some (take (path_size - 1) include_name) else None)"
    by (simp add: resolve_include_def a)
qed

lemma widget_lines:
  "read_lines [] ([CHR ''#''] @ ''include '' @ [CHR 0x22] @ ''widget.h''
                    @ [CHR 0x22, CHR 0x0A] @ ''int widget(void){return 1;}'')
     = [[CHR ''#''] @ ''include '' @ [CHR 0x22] @ ''widget.h'' @ [CHR 0x22, CHR 0x0A],
        ''int widget(void){return 1;}'']"
  by code_simp

lemma widget_scan:
  "scan_include_directive
     ([CHR ''#''] @ ''include '' @ [CHR 0x22] @ ''widget.h'' @ [CHR 0x22, CHR 0x0A])
     = Some (CHR 0x22, ''widget.h'')"
  by (simp add: scan_include_directive_def c_str_def isspace_def MAX_PATH_LENGTH_def)

lemma widget_scan_body:
  "scan_include_directive ''int widget(void){return 1;}'' = None"
  by (simp add: scan_include_directive_def c_str_def isspace_def)

lemma widget_read:
  "fs_read widget_fs ''proj/sub/widget.c''
     = Some ([CHR ''#''] @ ''include '' @ [CHR 0x22] @ ''widget.h''
                    @ [CHR 0x22, CHR 0x0A] @ ''int widget(void){return 1;}'')"
  by (simp add: widget_fs_def)

lemma widget_resolve:
  "resolve_include widget_fs widget_graph ''widget.h'' ''proj/sub/widget.c'' MAX_PATH_LENGTH
     = Some ''proj/widget.h''"
  by (simp add: resolve_include_def try_referencing_directory_def widget_graph_def
                file_exists_def snprintf_def MAX_PATH_LENGTH_def widget_fs_def)

text \<open>
  C5 does not hold of the code. \<^verbatim>\<open>proj/sub/widget.c\<close> includes \<^verbatim>\<open>"widget.h"\<close> in
  quote form and \<^verbatim>\<open>proj/sub/widget.h\<close> exists next to it, yet the scanner and resolver
  record \<^verbatim>\<open>proj/widget.h\<close>, the file of that name under the include root.
\<close>

theorem quote_include_resolved_against_roots:
  "file_exists widget_fs ''proj/sub/widget.h''
   \<and> parse_includes widget_fs widget_graph (unit_of ''proj/sub/widget.c'' [] False)
       = Inr (unit_of ''proj/sub/widget.c'' [''proj/widget.h''] False)"
proof -
  have a: "file_exists widget_fs ''proj/sub/widget.h''"
    by (simp add: file_exists_def widget_fs_def)
  have p: "path (unit_of ''proj/sub/widget.c'' [] False) = ''proj/sub/widget.c''"
    by (simp add: unit_of_def)
  have b: "parse_includes widget_fs widget_graph (unit_of ''proj/sub/widget.c'' [] False)
       = Inr (unit_of ''proj/sub/widget.c'' [''proj/widget.h''] False)"
    unfolding parse_includes_def p widget_read option.case widget_lines parse_lines.simps
      widget_scan widget_scan_body prod.case p widget_resolve
    by (simp add: source_file_add_include_def MAX_INCLUDES_PER_FILE_def unit_of_def)
  from a b show ?thesis by simp
qed

subsection \<open>Optimisation flag\<close>

lemma build_config_create_cflags: "cflags build_config_create = [''-Wall'', ''-O2'']"
  by (simp add: build_config_create_def build_config_add_cflag_def MAX_COMPILER_FLAGS_def)

text \<open>
  Whatever the command line says, the configuration that \<^verbatim>\<open>main\<close> hands to the build
  carries \<^verbatim>\<open>-O2\<close>: the flag is stored by \<^verbatim>\<open>build_config_create\<close> and nothing
  removes it.
\<close>

lemma main_build_config_keeps_O2: "''-O2'' \<in> set (cflags (main_build_config args))"
  by (simp add: main_build_config_def Let_def build_config_create_cflags
      build_config_set_output_dir_def build_config_set_output_binary_def
      build_config_add_include_path_def build_config_add_cflag_def)

lemma build_project_config_cflags:
  "build_project_config found config source_dir = Some config'
     \<Longrightarrow> cflags config' = cflags config"
  by (auto simp: build_project_config_def build_config_auto_detect_compiler_def
           split: option.splits if_splits)

lemma parse_no_optimize:
  "parse_arguments [''ecbuild'', ''--no-optimize'', ''proj'']
     = Some (default_arguments\<lparr>arg_source_dir := ''proj'', arg_no_optimize := True\<rparr>)"
  "parse_arguments [''ecbuild'', ''-O0'', ''proj'']
     = Some (default_arguments\<lparr>arg_source_dir := ''proj'', arg_no_optimize := True\<rparr>)"
  by (simp_all add: parse_arguments_def default_arguments_def)

lemma no_optimize_config:
  "build_project_config (Some (COMPILER_GCC, ''gcc''))
     (main_build_config (default_arguments\<lparr>arg_source_dir := ''proj'', arg_no_optimize := True\<rparr>))
     ''proj''
   = Some \<lparr> compiler = COMPILER_GCC, compiler_path = Some ''gcc'',
            cflags = [''-Wall'', ''-O2''], ldflags = [], config_include_paths = [''proj''],
            library_paths = [], libraries = [], output_dir = ''proj/build'',
            output_binary = ''program'', verbose = False, debug = False,
            optimize = False, parallel_jobs = 1 \<rparr>"
  by (simp add: main_build_config_def Let_def
        build_config_create_def build_config_add_cflag_def MAX_COMPILER_FLAGS_def
        build_config_set_output_dir_def build_config_set_output_binary_def
        build_config_add_include_path_def MAX_INCLUDE_PATHS_def default_arguments_def
        build_project_config_def build_config_auto_detect_compiler_def
        create_build_dir_path_def snprintf_def MAX_PATH_LENGTH_def)

lemma main_object_path:
  "get_object_file_path ''proj/main.c'' ''proj/build'' MAX_PATH_LENGTH = ''proj/build/main.o''"
  by (simp add: get_object_file_path_def strrchr_def snprintf_def MAX_PATH_LENGTH_def)

lemma no_optimize_command:
  "compile_command
     \<lparr> compiler = COMPILER_GCC, compiler_path = Some ''gcc'',
       cflags = [''-Wall'', ''-O2''], ldflags = [], config_include_paths = [''proj''],
       library_paths = [], libraries = [], output_dir = ''proj/build'',
       output_binary = ''program'', verbose = False, debug = False,
       optimize = False, parallel_jobs = 1 \<rparr>
     (unit_of ''proj/main.c'' [''proj/math.h''] False) ''proj/build/main.o''
   = Some ''gcc -c proj/main.c -o proj/build/main.o -Iproj -Wall -O2''"
  by (simp add: compile_command_def command_append_def MAX_COMMAND_LENGTH_def unit_of_def)

text \<open>
  C8 does not hold of the code. With \<^verbatim>\<open>--no-optimize\<close>, and likewise with \<^verbatim>\<open>-O0\<close>,
  the arguments are accepted and \<^verbatim>\<open>no_optimize\<close> is set, and the command with which
  \<^verbatim>\<open>proj/main.c\<close> is compiled still ends in \<^verbatim>\<open>-O2\<close>.
\<close>

theorem no_optimize_command_contains_O2:
  "map_option arg_no_optimize (parse_arguments [''ecbuild'', ''--no-optimize'', ''proj'']) = Some True
   \<and> ecbuild_compile_command [''ecbuild'', ''--no-optimize'', ''proj''] (Some (COMPILER_GCC, ''gcc''))
         (unit_of ''proj/main.c'' [''proj/math.h''] False)
       = Some ''gcc -c proj/main.c -o proj/build/main.o -Iproj -Wall -O2''
   \<and> map_option arg_no_optimize (parse_arguments [''ecbuild'', ''-O0'', ''proj'']) = Some True
   \<and> ecbuild_compile_command [''ecbuild'', ''-O0'', ''proj''] (Some (COMPILER_GCC, ''gcc''))
         (unit_of ''proj/main.c'' [''proj/math.h''] False)
       = Some ''gcc -c proj/main.c -o proj/build/main.o -Iproj -Wall -O2''"
proof -
  have p: "path (unit_of ''proj/main.c'' [''proj/math.h''] False) = ''proj/main.c''"
    by (simp add: unit_of_def)
  have s: "arg_source_dir (default_arguments\<lparr>arg_source_dir := ''proj'', arg_no_optimize := True\<rparr>)
             = ''proj''" by simp
  have c: "ecbuild_compile_command [''ecbuild'', ''--no-optimize'', ''proj'']
             (Some (COMPILER_GCC, ''gcc'')) (unit_of ''proj/main.c'' [''proj/math.h''] False)
           = Some ''gcc -c proj/main.c -o proj/build/main.o -Iproj -Wall -O2''"
    unfolding ecbuild_compile_command_def parse_no_optimize option.case s no_optimize_config p
    by (simp add: main_object_path no_optimize_command)
  have d: "ecbuild_compile_command [''ecbuild'', ''-O0'', ''proj'']
             (Some (COMPILER_GCC, ''gcc'')) (unit_of ''proj/main.c'' [''proj/math.h''] False)
           = Some ''gcc -c proj/main.c -o proj/build/main.o -Iproj -Wall -O2''"
    unfolding ecbuild_compile_command_def parse_no_optimize option.case s no_optimize_config p
    by (simp add: main_object_path no_optimize_command)
  show ?thesis using c d by (simp add: parse_no_optimize)
qed

subsection \<open>Evaluation of the builds of scenarios S2, S4 and S5\<close>

lemma s2_hash_main: "hash_bytes FNV_OFFSET_BASIS s2_main_text = 5594538830881718542"
  by (simp add: s2_main_text_def FNV_OFFSET_BASIS_def FNV_PRIME_def)

lemma s2_hash_math: "hash_bytes FNV_OFFSET_BASIS s2_math_text = 16278271345327044106"
  by (simp add: s2_math_text_def FNV_OFFSET_BASIS_def FNV_PRIME_def)

lemma s2_hashes:
  assumes "s2_sources_present fs"
  shows "hash_file_content fs ''proj/main.c'' = 5594538830881718542"
    and "hash_file_content fs ''proj/math.h'' = 16278271345327044106"
  using assms
  by (simp_all add: s2_sources_present_def hash_file_content_def s2_hash_main s2_hash_math)

lemma s2_config_eval:
  "s2_config = \<lparr> compiler = COMPILER_GCC, compiler_path = Some ''gcc'',
            cflags = [''-Wall'', ''-O2''], ldflags = [], config_include_paths = [''proj''],
            library_paths = [], libraries = [], output_dir = ''proj/build'',
            output_binary = ''program'', verbose = False, debug = False,
            optimize = True, parallel_jobs = 1 \<rparr>"
  by (simp add: s2_config_def build_config_create_def build_config_add_cflag_def
        MAX_COMPILER_FLAGS_def build_config_set_output_dir_def
        build_config_add_include_path_def MAX_INCLUDE_PATHS_def)

lemma s2_main_unit_fields:
  "path s2_main_unit = ''proj/main.c''" "is_header s2_main_unit = False"
  "include_list s2_main_unit = [''proj/math.h'']"
  by (simp_all add: s2_main_unit_def unit_of_def)

lemma s2_sort_eval:
  "dependency_graph_topological_sort s2_graph = Some (Inr (s2_sorted_graph, [2, 1, 0]))"
  by (simp add: s2_graph_def s2_sorted_graph_def dependency_graph_topological_sort_def
        reset_marks_def unit_of_def upt_rec enter_file_def leave_file_def
        dependency_graph_find_file_def)

lemma s2_object_path:
  "get_object_file_path ''proj/main.c'' ''proj/build'' MAX_PATH_LENGTH = ''proj/build/main.o''"
  by (simp add: get_object_file_path_def strrchr_def snprintf_def MAX_PATH_LENGTH_def)

lemma s2_copy_paths:
  "copy_path ''proj/main.c'' = ''proj/main.c''"
  "copy_path ''proj/build/main.o'' = ''proj/build/main.o''"
  "copy_path ''proj/math.h'' = ''proj/math.h''"
  "copy_path ''proj/build'' = ''proj/build''"
  by (simp_all add: copy_path_def MAX_PATH_LENGTH_def)

lemma s2_object_key: "object_key ''proj/main.c'' = ''object:proj/main.c''"
  by (simp add: object_key_def snprintf_def)

lemma s2_create_event: "create_compile_event s2_main_unit s2_config = s2_main_event False"
proof -
  have o: "output_dir s2_config = ''proj/build''" by (simp add: s2_config_eval)
  show ?thesis
    by (simp add: create_compile_event_def s2_main_unit_fields o s2_object_path
          s2_main_event_def s2_main_data_def snprintf_def)
qed

lemma s2_sorted_files:
  "files s2_sorted_graph ! 0 = s2_main_unit"
  "is_header (files s2_sorted_graph ! Suc 0)" "is_header (files s2_sorted_graph ! 2)"
  by (simp_all add: s2_sorted_graph_def s2_main_unit_def unit_of_def)

lemma s2_chain_eval:
  "build_compilation_chain s2_graph s2_config = Some (Inr (s2_sorted_graph, [s2_main_event False]))"
  unfolding build_compilation_chain_def s2_sort_eval
  by (simp add: s2_sorted_files s2_main_unit_fields s2_create_event)

lemma s2_find_main: "dependency_graph_find_file s2_sorted_graph ''proj/main.c'' = Some 0"
  by (simp add: dependency_graph_find_file_def s2_sorted_graph_def unit_of_def)

lemma s2_capture:
  assumes "s2_sources_present fs"
  shows "capture_dependencies fs (Some s2_sorted_graph) ''proj/main.c''
           = [(''proj/math.h'', 16278271345327044106)]"
  by (simp add: capture_dependencies_def s2_find_main s2_sorted_files(1) s2_main_unit_fields
        MAX_DEPENDENCIES_PER_FILE_def s2_copy_paths s2_hashes(2) [OF assms])

lemma s2_new_entry:
  assumes "s2_sources_present fs"
  shows "\<lparr> source_path = copy_path ''proj/main.c'',
           object_path = copy_path ''proj/build/main.o'',
           source_hash = hash_file_content fs ''proj/main.c'',
           source_mtime = get_file_mtime fs ''proj/main.c'',
           last_compiled = now,
           dependencies = capture_dependencies fs (Some s2_sorted_graph) ''proj/main.c'',
           valid = True \<rparr> = s2_entry now"
  using assms
  by (simp add: s2_entry_def s2_copy_paths s2_hashes(1) [OF assms] s2_capture [OF assms]
        get_file_mtime_def s2_sources_present_def)

lemma s2_update_new:
  assumes "s2_sources_present fs"
  shows "build_cache_update fs now (s2_store [] h m) ''proj/main.c'' ''proj/build/main.o''
           (Some s2_sorted_graph) = ([], s2_store [s2_entry now] h m)"
  unfolding build_cache_update_def s2_new_entry [OF assms]
  by (simp add: build_cache_find_def s2_store_def entry_count_def MAX_CACHE_ENTRIES_def)

lemma s2_update_existing:
  assumes "s2_sources_present fs"
  shows "build_cache_update fs now (s2_store [s2_entry t] h m) ''proj/main.c''
           ''proj/build/main.o'' (Some s2_sorted_graph) = ([], s2_store [s2_entry now] h m)"
  unfolding build_cache_update_def s2_new_entry [OF assms]
  by (simp add: build_cache_find_def s2_store_def s2_entry_def)

lemma s2_needs_empty:
  "build_cache_needs_recompilation fs (s2_store [] h m) s2_main_unit obj
     = (True, s2_store [] h (m + 1))"
  by (simp add: build_cache_needs_recompilation_def build_cache_find_def s2_store_def)

lemma s2_needs_warm:
  assumes "s2_sources_present fs"
  shows "build_cache_needs_recompilation fs (s2_store [s2_entry t] h m) s2_main_unit obj
     = (False, s2_store [s2_entry t] (h + 1) m)"
  by (simp add: build_cache_needs_recompilation_def build_cache_find_def s2_store_def
        s2_entry_def s2_main_unit_fields s2_hashes [OF assms])

lemma s2_compile_command:
  "compile_command s2_config s2_main_unit ''proj/build/main.o''
     = Some ''gcc -c proj/main.c -o proj/build/main.o -Iproj -Wall -O2''"
  by (simp add: compile_command_def command_append_def MAX_COMMAND_LENGTH_def
        s2_main_unit_fields s2_config_eval)

lemma s2_execute_compile:
  "execute_command s2_shell fs ''gcc -c proj/main.c -o proj/build/main.o -Iproj -Wall -O2'' 4096
     = ((True, [], 0), s2_after_compile fs)"
  by (simp add: execute_command_def s2_shell_def s2_after_compile_def c_str_def)

lemma s2_compile_fresh:
  assumes "fs_mtime fs ''proj/build/main.o'' = None"
  shows "compile_source_file s2_shell fs s2_main_unit s2_config
           = Some (\<lparr> success = True, object_file = Some ''proj/build/main.o'',
                        error_output = None, exit_code = 0 \<rparr>, s2_after_compile fs)"
proof -
  have o: "output_dir s2_config = ''proj/build''" by (simp add: s2_config_eval)
  have n: "needs_recompilation fs ''proj/main.c'' ''proj/build/main.o''"
    using assms by (simp add: needs_recompilation_def)
  show ?thesis
    unfolding compile_source_file_def s2_main_unit_fields o s2_object_path Let_def
    using n by (simp add: s2_compile_command s2_execute_compile)
qed

lemma s2_event_fresh:
  assumes "fs_mtime (bs_fs st) ''proj/build/main.o'' = None"
  shows "compile_event_execute s2_shell (s2_main_event False) st
           = Some (event_result_success, s2_main_event False,
                   st\<lparr>bs_fs := s2_after_compile (bs_fs st),
                      bs_context := (bs_context st)
                         (''object:proj/main.c'' \<mapsto> Path_value ''proj/build/main.o'')\<rparr>)"
  unfolding compile_event_execute_def
  by (simp add: s2_main_event_def s2_main_data_def s2_main_unit_fields
        s2_compile_fresh [OF assms] s2_copy_paths s2_object_key)

lemma s2_after_compile_sources:
  "s2_sources_present fs \<Longrightarrow> s2_sources_present (s2_after_compile fs)"
  by (simp add: s2_sources_present_def s2_after_compile_def write_file_def)

lemma s2_after_compile_object:
  "fs_exists (s2_after_compile fs) ''proj/build/main.o''"
  "fs_mtime (s2_after_compile fs) ''proj/build/main.o'' = Some 200"
  "fs_cache_file (s2_after_compile fs) = fs_cache_file fs"
  by (simp_all add: s2_after_compile_def write_file_def)

lemma s2_update_after_new:
  assumes "s2_sources_present (bs_fs st)"
      and "bs_cache st = Some (s2_store [] h m)"
      and "bs_context st ''dependency_graph'' = Some (Graph_value s2_sorted_graph)"
  shows "cache_update_after now s2_main_unit ''proj/build/main.o'' st
           = st\<lparr>bs_cache := Some (s2_store [s2_entry now] h m)\<rparr>"
  by (simp add: cache_update_after_def assms(2,3) s2_main_unit_fields
        s2_update_new [OF assms(1)])

lemma s2_update_after_existing:
  assumes "s2_sources_present (bs_fs st)"
      and "bs_cache st = Some (s2_store [s2_entry t] h m)"
      and "bs_context st ''dependency_graph'' = Some (Graph_value s2_sorted_graph)"
  shows "cache_update_after now s2_main_unit ''proj/build/main.o'' st
           = st\<lparr>bs_cache := Some (s2_store [s2_entry now] h m)\<rparr>"
  by (simp add: cache_update_after_def assms(2,3) s2_main_unit_fields
        s2_update_existing [OF assms(1)])

lemma s2_compile_below_new:
  assumes "s2_sources_present (bs_fs st)"
      and "fs_mtime (bs_fs st) ''proj/build/main.o'' = None"
      and "bs_cache st = Some (s2_store [] h m)"
      and "bs_context st ''dependency_graph'' = Some (Graph_value s2_sorted_graph)"
  shows "compile_below now (compile_event_execute s2_shell) s2_main_unit (s2_main_data False)
           (s2_main_event False) st
         = Some (event_result_success, s2_main_event False,
                 s2_compiled_state [s2_entry now] h m st)"
proof -
  have e: "(s2_main_event False)\<lparr>user_data := Some ((s2_main_data False)\<lparr>cache_hit := False\<rparr>)\<rparr>
             = s2_main_event False"
    by (simp add: s2_main_event_def s2_main_data_def)
  let ?st' = "st\<lparr>bs_fs := s2_after_compile (bs_fs st),
                     bs_context := (bs_context st)
                        (''object:proj/main.c'' \<mapsto> Path_value ''proj/build/main.o'')\<rparr>"
  have u: "cache_update_after now s2_main_unit ''proj/build/main.o'' ?st'
             = ?st'\<lparr>bs_cache := Some (s2_store [s2_entry now] h m)\<rparr>"
    by (rule s2_update_after_new)
       (simp_all add: assms s2_after_compile_sources)
  show ?thesis
    unfolding compile_below_def e s2_event_fresh [OF assms(2)]
    by (simp add: event_result_success_def [symmetric] u s2_compiled_state_def
          s2_main_event_def s2_main_data_def)
       (simp add: event_result_success_def)
qed

lemma s2_compile_below_existing:
  assumes "s2_sources_present (bs_fs st)"
      and "fs_mtime (bs_fs st) ''proj/build/main.o'' = None"
      and "bs_cache st = Some (s2_store [s2_entry t] h m)"
      and "bs_context st ''dependency_graph'' = Some (Graph_value s2_sorted_graph)"
  shows "compile_below now (compile_event_execute s2_shell) s2_main_unit (s2_main_data False)
           (s2_main_event False) st
         = Some (event_result_success, s2_main_event False,
                 s2_compiled_state [s2_entry now] h m st)"
proof -
  have e: "(s2_main_event False)\<lparr>user_data := Some ((s2_main_data False)\<lparr>cache_hit := False\<rparr>)\<rparr>
             = s2_main_event False"
    by (simp add: s2_main_event_def s2_main_data_def)
  let ?st' = "st\<lparr>bs_fs := s2_after_compile (bs_fs st),
                     bs_context := (bs_context st)
                        (''object:proj/main.c'' \<mapsto> Path_value ''proj/build/main.o'')\<rparr>"
  have u: "cache_update_after now s2_main_unit ''proj/build/main.o'' ?st'
             = ?st'\<lparr>bs_cache := Some (s2_store [s2_entry now] h m)\<rparr>"
    by (rule s2_update_after_existing [where t = t])
       (simp_all add: assms s2_after_compile_sources)
  show ?thesis
    unfolding compile_below_def e s2_event_fresh [OF assms(2)]
    by (simp add: event_result_success_def [symmetric] u s2_compiled_state_def
          s2_main_event_def s2_main_data_def)
       (simp add: event_result_success_def)
qed

lemma s2_event_data:
  "user_data (s2_main_event hit) = Some (s2_main_data hit)"
  "event_source (s2_main_data hit) = Some s2_main_unit"
  "event_object_path (s2_main_data hit) = ''proj/build/main.o''"
  "cache_hit (s2_main_data hit) = hit"
  by (simp_all add: s2_main_event_def s2_main_data_def)

lemma s2_cache_layer_cold:
  assumes "s2_sources_present (bs_fs st)"
      and "fs_mtime (bs_fs st) ''proj/build/main.o'' = None"
      and "bs_cache st = Some (s2_store [] h m)"
      and "bs_context st ''dependency_graph'' = Some (Graph_value s2_sorted_graph)"
  shows "cache_middleware_execute now (compile_event_execute s2_shell) (s2_main_event False) st
         = Some (event_result_success, s2_main_event False,
                 s2_compiled_state [s2_entry now] h (m + 1) st)"
proof -
  let ?st1 = "st\<lparr>bs_cache := Some (s2_store [] h (m + 1))\<rparr>"
  have c: "compile_below now (compile_event_execute s2_shell) s2_main_unit (s2_main_data False)
             (s2_main_event False) ?st1
           = Some (event_result_success, s2_main_event False,
                   s2_compiled_state [s2_entry now] h (m + 1) ?st1)"
    by (rule s2_compile_below_new) (simp_all add: assms)
  have d: "s2_compiled_state [s2_entry now] h (m + 1) ?st1
             = s2_compiled_state [s2_entry now] h (m + 1) st"
    by (simp add: s2_compiled_state_def)
  show ?thesis
    unfolding cache_middleware_execute_def s2_event_data option.case assms(3)
      s2_main_unit_fields if_False s2_needs_empty Let_def prod.case
    using c d by simp
qed

lemma s2_cache_layer_warm:
  assumes "s2_sources_present (bs_fs st)"
      and "fs_exists (bs_fs st) ''proj/build/main.o''"
      and "bs_cache st = Some (s2_store [s2_entry t] h m)"
  shows "cache_middleware_execute now (compile_event_execute s2_shell) (s2_main_event False) st
         = Some (event_result_success, s2_main_event True,
                 st\<lparr>bs_context := (bs_context st)
                        (''object:proj/main.c'' \<mapsto> Path_value ''proj/build/main.o''),
                    bs_cache := Some (s2_store [s2_entry t] (h + 1) m)\<rparr>)"
  unfolding cache_middleware_execute_def s2_event_data option.case assms(3)
    s2_main_unit_fields if_False s2_needs_warm [OF assms(1)] Let_def prod.case
  using assms(2)
  by (simp add: file_exists_cache_def s2_object_key s2_main_event_def s2_main_data_def)

lemma s2_cache_layer_downgrade:
  assumes "s2_sources_present (bs_fs st)"
      and "\<not> fs_exists (bs_fs st) ''proj/build/main.o''"
      and "fs_mtime (bs_fs st) ''proj/build/main.o'' = None"
      and "bs_cache st = Some (s2_store [s2_entry t] h m)"
      and "bs_context st ''dependency_graph'' = Some (Graph_value s2_sorted_graph)"
  shows "cache_middleware_execute now (compile_event_execute s2_shell) (s2_main_event False) st
         = Some (event_result_success, s2_main_event False,
                 s2_compiled_state [s2_entry now] (h + 1) m st)"
proof -
  let ?st1 = "st\<lparr>bs_cache := Some (s2_store [s2_entry t] (h + 1) m)\<rparr>"
  have c: "compile_below now (compile_event_execute s2_shell) s2_main_unit (s2_main_data False)
             (s2_main_event False) ?st1
           = Some (event_result_success, s2_main_event False,
                   s2_compiled_state [s2_entry now] (h + 1) m ?st1)"
    by (rule s2_compile_below_existing [where t = t]) (simp_all add: assms)
  have d: "s2_compiled_state [s2_entry now] (h + 1) m ?st1
             = s2_compiled_state [s2_entry now] (h + 1) m st"
    by (simp add: s2_compiled_state_def)
  show ?thesis
    unfolding cache_middleware_execute_def s2_event_data option.case assms(4)
      s2_main_unit_fields if_False s2_needs_warm [OF assms(1)] Let_def prod.case
    using c d assms(2) by (simp add: file_exists_cache_def)
qed

lemma s2_statistics_layer:
  assumes "bs_stats st = Some (s2_stats a b)"
      and "below (s2_main_event False) st = Some (event_result_success, s2_main_event hit, st')"
      and "bs_stats st' = Some (s2_stats a b)"
  shows "statistics_middleware_execute below (s2_main_event False) st
         = Some (event_result_success, s2_main_event hit,
                 st'\<lparr>bs_stats := Some (if hit then s2_stats a (b + 1) else s2_stats (a + 1) b)\<rparr>)"
  unfolding statistics_middleware_execute_def assms option.case s2_event_data Let_def prod.case
  by (simp add: event_result_success_def s2_stats_def)

lemma s2_layers:
  assumes "bs_stats st = Some (s2_stats a b)"
      and "cache_middleware_execute now (compile_event_execute s2_shell) (s2_main_event False) st
             = Some (event_result_success, s2_main_event hit, st')"
      and "bs_stats st' = Some (s2_stats a b)"
  shows "run_layers now s2_shell [Statistics_layer, Logging_layer, Cache_layer]
           (s2_main_event False) st
         = Some (event_result_success, s2_main_event hit,
                 st'\<lparr>bs_stats := Some (if hit then s2_stats a (b + 1) else s2_stats (a + 1) b)\<rparr>)"
proof -
  have n: "logging_middleware_execute
             (cache_middleware_execute now (compile_event_execute s2_shell))
             (s2_main_event False) st
           = Some (event_result_success, s2_main_event hit, st')"
    by (simp add: logging_middleware_execute_def assms(2))
  show ?thesis
    unfolding run_layers.simps layer_execute_def layer.case
    by (rule s2_statistics_layer
          [where below = "logging_middleware_execute
                             (cache_middleware_execute now (compile_event_execute s2_shell))",
           OF assms(1) n assms(3)])
qed

lemma s2_chain:
  assumes "run_layers now s2_shell layers (s2_main_event False) st
             = Some (event_result_success, ev, st')"
  shows "event_chain_execute now s2_shell layers [s2_main_event False] st
           = Some (True, [ev], st')"
  by (simp add: assms event_result_success_def)

lemma s2_project_dir: "project_dir_of (output_dir s2_config) = ''proj''"
  by (simp add: s2_config_eval project_dir_of_def s2_copy_paths strrchr_def)

lemma s2_cache_paths:
  "cache_dir_path ''proj'' = ''proj/.eventchains''"
  "cache_file_path ''proj/.eventchains'' = ''proj/.eventchains/cache.dat''"
  "copy_path ''proj'' = ''proj''"
  by (simp_all add: cache_dir_path_def cache_file_path_def copy_path_def MAX_PATH_LENGTH_def)

lemma s2_create_fresh:
  assumes "fs_cache_file fs ''proj/.eventchains/cache.dat'' = None"
  shows "build_cache_create fs ''proj'' = ([], s2_store [] 0 0)"
  unfolding build_cache_create_def s2_cache_paths Let_def
  by (simp add: assms s2_store_def s2_cache_paths)

lemma s2_create_loaded:
  assumes "fs_cache_file fs ''proj/.eventchains/cache.dat''
             = Some \<lparr> cf_version = Some CACHE_VERSION, cf_entry_count = Some 1,
                       cf_entries = [s2_entry t] \<rparr>"
  shows "build_cache_create fs ''proj''
           = ([Loaded_cache 1 ''proj/.eventchains/cache.dat''], s2_store [s2_entry t] 0 0)"
  unfolding build_cache_create_def s2_cache_paths Let_def
  by (simp add: assms s2_store_def MAX_CACHE_ENTRIES_def s2_cache_paths)

lemma s2_save:
  assumes "s2_sources_present fs"
  shows "build_cache_save fs (s2_store es h m) = (True, s2_after_save (s2_store es h m) fs)"
proof -
  have p: "snprintf MAX_PATH_LENGTH (cache_dir (s2_store es h m) @ ''/'' @ ''cache.dat.tmp'')
             = ''proj/.eventchains/cache.dat.tmp''"
          "snprintf MAX_PATH_LENGTH (cache_dir (s2_store es h m) @ ''/'' @ ''cache.dat'')
             = ''proj/.eventchains/cache.dat''"
    by (simp_all add: s2_store_def snprintf_def MAX_PATH_LENGTH_def)
  show ?thesis
    unfolding build_cache_save_def p Let_def
    using assms by (simp add: s2_sources_present_def s2_after_save_def)
qed

lemma s2_after_save_facts:
  "s2_sources_present fs \<Longrightarrow> s2_sources_present (s2_after_save c fs)"
  "fs_exists (s2_after_save c fs) = fs_exists fs"
  "fs_mtime (s2_after_save c fs) = fs_mtime fs"
  "fs_cache_file (s2_after_save (s2_store [s2_entry t] h m) fs) ''proj/.eventchains/cache.dat''
     = Some \<lparr> cf_version = Some CACHE_VERSION, cf_entry_count = Some 1,
               cf_entries = [s2_entry t] \<rparr>"
  by (simp_all add: s2_sources_present_def s2_after_save_def s2_store_def entry_count_def)

lemma s2_after_link_facts:
  "s2_sources_present fs \<Longrightarrow> s2_sources_present (s2_after_link fs)"
  "fs_exists (s2_after_link fs) ''proj/build/main.o'' = fs_exists fs ''proj/build/main.o''"
  "fs_mtime (s2_after_link fs) ''proj/build/main.o'' = fs_mtime fs ''proj/build/main.o''"
  "fs_cache_file (s2_after_link fs) = fs_cache_file fs"
  by (simp_all add: s2_sources_present_def s2_after_link_def write_file_def)

lemma s2_link_command:
  "link_command s2_config [''proj/build/main.o''] ''proj/build/program''
     = Some ''gcc proj/build/main.o -o proj/build/program''"
  by (simp add: link_command_def command_append_def MAX_COMMAND_LENGTH_def s2_config_eval)

lemma s2_link:
  "link_executable s2_shell fs [''proj/build/main.o''] s2_config
     = Some (\<lparr> success = True, object_file = Some ''proj/build/program'',
                  error_output = None, exit_code = 0 \<rparr>, s2_after_link fs)"
proof -
  have b: "snprintf MAX_PATH_LENGTH (output_dir s2_config @ ''/'' @ output_binary s2_config)
             = ''proj/build/program''"
    by (simp add: s2_config_eval snprintf_def MAX_PATH_LENGTH_def)
  have x: "execute_command s2_shell fs ''gcc proj/build/main.o -o proj/build/program'' 4096
             = ((True, [], 0), s2_after_link fs)"
    by (simp add: execute_command_def s2_shell_def s2_after_link_def c_str_def)
  show ?thesis
    unfolding link_executable_def b Let_def s2_link_command
    by (simp add: x)
qed

lemma s2_object_files:
  "concat (map (\<lambda>e. case user_data e of
                         None \<Rightarrow> []
                       | Some data \<Rightarrow>
                           if event_object_path data \<noteq> []
                              \<and> (case event_source data of
                                    Some s \<Rightarrow> \<not> is_header s
                                  | None \<Rightarrow> False)
                           then [event_object_path data] else [])
               [s2_main_event hit]) = [''proj/build/main.o'']"
  by (simp add: s2_event_data s2_main_unit_fields)

lemma s2_total_files: "(of_nat (length (files s2_graph)) :: 64 word) = 3"
  by (simp add: s2_graph_def)

lemma s2_verbose: "verbose s2_config = False"
  by (simp add: s2_config_eval)

lemma s2_initial_state_facts:
  "bs_fs (s2_initial_state fs es) = fs"
  "bs_cache (s2_initial_state fs es) = Some (s2_store es 0 0)"
  "bs_stats (s2_initial_state fs es) = Some (s2_stats 0 0)"
  "bs_context (s2_initial_state fs es) ''dependency_graph'' = Some (Graph_value s2_sorted_graph)"
  by (simp_all add: s2_initial_state_def s2_context_def)

lemma s2_build_unfold:
  assumes c: "build_cache_create fs ''proj'' = (msgs, s2_store es 0 0)"
      and r: "run_layers now s2_shell [Statistics_layer, Logging_layer, Cache_layer]
                (s2_main_event False) (s2_initial_state fs es)
              = Some (event_result_success, s2_main_event hit, st)"
      and k: "bs_cache st = Some (s2_store es' h m)"
      and p: "s2_sources_present (bs_fs st)"
  shows "eventchains_build_project now s2_shell fs s2_graph s2_config True
         = Some \<lparr> return_code = 0, final_stats = bs_stats st,
                   final_cache = Some (s2_store es' h m),
                   final_fs = s2_after_link (s2_after_save (s2_store es' h m) (bs_fs st)) \<rparr>"
proof -
  have i: "\<lparr> bs_fs = fs,
             bs_context = [''build.config'' \<mapsto> Config_value s2_config,
                           ''dependency_graph'' \<mapsto> Graph_value s2_sorted_graph],
             bs_cache = Some (s2_store es 0 0),
             bs_stats = Some \<lparr> total_files = 3, compiled_files = 0, cached_files = 0,
                                 failed_files = 0 \<rparr> \<rparr> = s2_initial_state fs es"
    by (simp add: s2_initial_state_def s2_context_def s2_stats_def)
  have ch: "event_chain_execute now s2_shell [Statistics_layer, Logging_layer, Cache_layer]
              [s2_main_event False] (s2_initial_state fs es)
            = Some (True, [s2_main_event hit], st)"
    by (rule s2_chain [OF r])
  show ?thesis
    unfolding eventchains_build_project_def s2_project_dir c snd_conv s2_chain_eval
      s2_total_files s2_verbose Let_def
    apply (simp only: if_True if_False append.simps option.case sum.case prod.case i ch)
    apply (simp only: k option.case s2_save [OF p] snd_conv s2_object_files s2_link
             prod.case not_True_eq_False if_False)
    apply (simp only: CompileResult.simps if_True)
    done
qed

lemma s2_compiled_state_facts:
  "bs_fs (s2_compiled_state es h m st) = s2_after_compile (bs_fs st)"
  "bs_cache (s2_compiled_state es h m st) = Some (s2_store es h m)"
  "bs_stats (s2_compiled_state es h m st) = bs_stats st"
  by (simp_all add: s2_compiled_state_def)

lemma s2_build_cold:
  assumes p: "s2_sources_present fs"
      and o: "fs_mtime fs ''proj/build/main.o'' = None"
      and c: "fs_cache_file fs ''proj/.eventchains/cache.dat'' = None"
  shows "eventchains_build_project now s2_shell fs s2_graph s2_config True
         = Some \<lparr> return_code = 0, final_stats = Some (s2_stats 1 0),
                   final_cache = Some (s2_store [s2_entry now] 0 1),
                   final_fs = s2_after_link (s2_after_save (s2_store [s2_entry now] 0 1)
                                (s2_after_compile fs)) \<rparr>"
proof -
  let ?st = "s2_compiled_state [s2_entry now] 0 (0 + 1) (s2_initial_state fs [])"
  have l: "cache_middleware_execute now (compile_event_execute s2_shell) (s2_main_event False)
             (s2_initial_state fs []) = Some (event_result_success, s2_main_event False, ?st)"
    by (rule s2_cache_layer_cold) (simp_all add: s2_initial_state_facts p o)
  have r: "run_layers now s2_shell [Statistics_layer, Logging_layer, Cache_layer]
             (s2_main_event False) (s2_initial_state fs [])
           = Some (event_result_success, s2_main_event False,
                   ?st\<lparr>bs_stats := Some (if False then s2_stats 0 (0 + 1)
                                            else s2_stats (0 + 1) 0)\<rparr>)"
    by (rule s2_layers [OF _ l])
       (simp_all add: s2_initial_state_facts s2_compiled_state_facts)
  show ?thesis
    using s2_build_unfold [OF s2_create_fresh [OF c] r, of "[s2_entry now]" 0 1]
    by (simp add: s2_compiled_state_facts s2_initial_state_facts s2_after_compile_sources p)
qed

lemma s2_build_warm:
  assumes p: "s2_sources_present fs"
      and o: "fs_exists fs ''proj/build/main.o''"
      and c: "fs_cache_file fs ''proj/.eventchains/cache.dat''
                = Some \<lparr> cf_version = Some CACHE_VERSION, cf_entry_count = Some 1,
                          cf_entries = [s2_entry t] \<rparr>"
  shows "eventchains_build_project now s2_shell fs s2_graph s2_config True
         = Some \<lparr> return_code = 0, final_stats = Some (s2_stats 0 1),
                   final_cache = Some (s2_store [s2_entry t] 1 0),
                   final_fs = s2_after_link (s2_after_save (s2_store [s2_entry t] 1 0) fs) \<rparr>"
proof -
  let ?st = "(s2_initial_state fs [s2_entry t])
               \<lparr>bs_context := (bs_context (s2_initial_state fs [s2_entry t]))
                      (''object:proj/main.c'' \<mapsto> Path_value ''proj/build/main.o''),
                bs_cache := Some (s2_store [s2_entry t] (0 + 1) 0)\<rparr>"
  have l: "cache_middleware_execute now (compile_event_execute s2_shell) (s2_main_event False)
             (s2_initial_state fs [s2_entry t])
           = Some (event_result_success, s2_main_event True, ?st)"
    by (rule s2_cache_layer_warm) (simp_all add: s2_initial_state_facts p o)
  have r: "run_layers now s2_shell [Statistics_layer, Logging_layer, Cache_layer]
             (s2_main_event False) (s2_initial_state fs [s2_entry t])
           = Some (event_result_success, s2_main_event True,
                   ?st\<lparr>bs_stats := Some (if True then s2_stats 0 (0 + 1)
                                            else s2_stats (0 + 1) 0)\<rparr>)"
    by (rule s2_layers [OF _ l]) (simp_all add: s2_initial_state_facts)
  show ?thesis
    using s2_build_unfold [OF s2_create_loaded [OF c] r, of "[s2_entry t]" 1 0]
    by (simp add: s2_initial_state_facts p)
qed

lemma s2_build_downgrade:
  assumes p: "s2_sources_present fs"
      and o: "\<not> fs_exists fs ''proj/build/main.o''"
      and n: "fs_mtime fs ''proj/build/main.o'' = None"
      and c: "fs_cache_file fs ''proj/.eventchains/cache.dat''
                = Some \<lparr> cf_version = Some CACHE_VERSION, cf_entry_count = Some 1,
                          cf_entries = [s2_entry t] \<rparr>"
  shows "eventchains_build_project now s2_shell fs s2_graph s2_config True
         = Some \<lparr> return_code = 0, final_stats = Some (s2_stats 1 0),
                   final_cache = Some (s2_store [s2_entry now] 1 0),
                   final_fs = s2_after_link (s2_after_save (s2_store [s2_entry now] 1 0)
                                (s2_after_compile fs)) \<rparr>"
proof -
  let ?st = "s2_compiled_state [s2_entry now] (0 + 1) 0 (s2_initial_state fs [s2_entry t])"
  have l: "cache_middleware_execute now (compile_event_execute s2_shell) (s2_main_event False)
             (s2_initial_state fs [s2_entry t])
           = Some (event_result_success, s2_main_event False, ?st)"
    by (rule s2_cache_layer_downgrade) (simp_all add: s2_initial_state_facts p o n)
  have r: "run_layers now s2_shell [Statistics_layer, Logging_layer, Cache_layer]
             (s2_main_event False) (s2_initial_state fs [s2_entry t])
           = Some (event_result_success, s2_main_event False,
                   ?st\<lparr>bs_stats := Some (if False then s2_stats 0 (0 + 1)
                                            else s2_stats (0 + 1) 0)\<rparr>)"
    by (rule s2_layers [OF _ l])
       (simp_all add: s2_initial_state_facts s2_compiled_state_facts)
  show ?thesis
    using s2_build_unfold [OF s2_create_loaded [OF c] r, of "[s2_entry now]" 1 0]
    by (simp add: s2_compiled_state_facts s2_initial_state_facts s2_after_compile_sources p)
qed

lemma s2_fs_facts:
  "s2_sources_present s2_fs"
  "fs_mtime s2_fs ''proj/build/main.o'' = None"
  "fs_cache_file s2_fs ''proj/.eventchains/cache.dat'' = None"
  by (simp_all add: s2_sources_present_def s2_fs_def s2_files_def)

lemma s2_first_build_eval:
  "s2_first_build
     = Some \<lparr> return_code = 0, final_stats = Some (s2_stats 1 0),
               final_cache = Some (s2_store [s2_entry 1000] 0 1), final_fs = s2_built_fs \<rparr>"
  unfolding s2_first_build_def s2_built_fs_def
  by (rule s2_build_cold) (rule s2_fs_facts)+

lemma s2_built_fs_facts:
  "s2_sources_present s2_built_fs"
  "fs_exists s2_built_fs ''proj/build/main.o''"
  "fs_cache_file s2_built_fs ''proj/.eventchains/cache.dat''
     = Some \<lparr> cf_version = Some CACHE_VERSION, cf_entry_count = Some 1,
               cf_entries = [s2_entry 1000] \<rparr>"
  unfolding s2_built_fs_def
  by (simp_all add: s2_after_link_facts s2_after_save_facts s2_after_compile_sources
        s2_after_compile_object s2_fs_facts)

lemma remove_tree_facts:
  "s2_sources_present fs \<Longrightarrow> s2_sources_present (remove_tree ''proj/build'' fs)"
  "\<not> fs_exists (remove_tree ''proj/build'' fs) ''proj/build/main.o''"
  "fs_mtime (remove_tree ''proj/build'' fs) ''proj/build/main.o'' = None"
  "fs_cache_file (remove_tree ''proj/build'' fs) ''proj/.eventchains/cache.dat''
     = fs_cache_file fs ''proj/.eventchains/cache.dat''"
  by (simp_all add: s2_sources_present_def remove_tree_def)

lemma s4_second_build_eval:
  "s4_second_build
     = Some \<lparr> return_code = 0, final_stats = Some (s2_stats 0 1),
               final_cache = Some (s2_store [s2_entry 1000] 1 0),
               final_fs = s2_after_link (s2_after_save (s2_store [s2_entry 1000] 1 0)
                            s2_built_fs) \<rparr>"
  unfolding s4_second_build_def s2_first_build_eval option.case build_outcome.simps
  by (rule s2_build_warm) (rule s2_built_fs_facts)+

lemma s5_rebuild_eval:
  "s5_rebuild
     = Some \<lparr> return_code = 0, final_stats = Some (s2_stats 1 0),
               final_cache = Some (s2_store [s2_entry 2000] 1 0),
               final_fs = s2_after_link (s2_after_save (s2_store [s2_entry 2000] 1 0)
                            (s2_after_compile (remove_tree ''proj/build'' s2_built_fs))) \<rparr>"
  unfolding s5_rebuild_def s2_first_build_eval option.case build_outcome.simps
  by (rule s2_build_downgrade)
     (simp_all add: remove_tree_facts s2_built_fs_facts)

lemma hit_skip_store:
  assumes "\<not> fst (build_cache_needs_recompilation fs cache source obj)"
  shows "build_cache_needs_recompilation fs cache source obj
           = (False, cache\<lparr>hits := hits cache + 1\<rparr>)"
proof (cases "build_cache_find cache (path source)")
  case None
  with assms show ?thesis
    by (simp add: build_cache_needs_recompilation_def)
next
  case (Some i)
  with assms show ?thesis
    by (simp add: build_cache_needs_recompilation_def Let_def split: if_splits)
qed

lemma build_cache_update_counters:
  "hits (snd (build_cache_update fs now cache src obj graph)) = hits cache"
  "misses (snd (build_cache_update fs now cache src obj graph)) = misses cache"
  unfolding build_cache_update_def
  by (simp_all add: Let_def split: option.splits)

lemma cache_update_after_counters:
  assumes "bs_cache st = Some cache"
  shows "map_option hits (bs_cache (cache_update_after now source obj st)) = Some (hits cache)"
    and "map_option misses (bs_cache (cache_update_after now source obj st))
           = Some (misses cache)"
  unfolding cache_update_after_def
  by (simp_all add: assms Let_def build_cache_update_counters)

lemma compile_event_execute_frame:
  assumes "compile_event_execute sh event st = Some (result, event', st')"
      and "user_data event = Some data"
      and "event_source data = Some source"
      and "\<not> is_header source"
      and "\<not> cache_hit data"
  shows "bs_cache st' = bs_cache st"
    and "map_option cache_hit (user_data event') = Some False"
  using assms unfolding compile_event_execute_def
  by (auto simp: Let_def split: option.splits)

lemma compile_below_counters:
  assumes r: "compile_below now (compile_event_execute sh) source data event st
                = Some (result, event', st')"
      and s: "event_source data = Some source"
      and h: "\<not> is_header source"
      and c: "bs_cache st = Some cache"
  shows "map_option hits (bs_cache st') = Some (hits cache)
         \<and> map_option misses (bs_cache st') = Some (misses cache)
         \<and> map_option cache_hit (user_data event') = Some False"
proof -
  let ?e = "event\<lparr>user_data := Some (data\<lparr>cache_hit := False\<rparr>)\<rparr>"
  from r obtain st1 where
    x: "compile_event_execute sh ?e st = Some (result, event', st1)"
    and y: "st' = (if result_success result
                   then cache_update_after now source
                          (case user_data event' of
                             Some data' \<Rightarrow> event_object_path data'
                           | None \<Rightarrow> event_object_path data) st1
                   else st1)"
    unfolding compile_below_def by (auto split: option.splits if_splits)
  have f: "bs_cache st1 = Some cache"
          "map_option cache_hit (user_data event') = Some False"
    using compile_event_execute_frame [OF x, of "data\<lparr>cache_hit := False\<rparr>" source] s h c
    by simp_all
  show ?thesis
    using f y cache_update_after_counters [OF f(1)] by simp
qed

lemma s5_state_facts:
  "bs_fs s5_state = remove_tree ''proj/build'' s2_built_fs"
  "bs_cache s5_state = Some (s2_store [s2_entry 1000] 0 0)"
  "bs_context s5_state ''dependency_graph'' = Some (Graph_value s2_sorted_graph)"
  by (simp_all add: s5_state_def s2_initial_state_facts)

lemma s5_state_layer:
  "cache_middleware_execute 2000 (compile_event_execute s2_shell) (s2_main_event False) s5_state
     = Some (event_result_success, s2_main_event False,
             s2_compiled_state [s2_entry 2000] (0 + 1) 0 s5_state)"
  by (rule s2_cache_layer_downgrade [where t = 1000])
     (simp_all add: s5_state_facts remove_tree_facts s2_built_fs_facts)

lemma s5_state_hit_skip:
  "\<not> fst (build_cache_needs_recompilation (bs_fs s5_state) (s2_store [s2_entry 1000] 0 0)
            s2_main_unit ''proj/build/main.o'')"
  by (simp add: s2_needs_warm s5_state_facts remove_tree_facts s2_built_fs_facts)

lemma s5_state_no_object:
  "\<not> file_exists_cache (bs_fs s5_state) ''proj/build/main.o''"
  by (simp add: file_exists_cache_def s5_state_facts remove_tree_facts)

subsection \<open>Cache layer: a content hit without its object file\<close>

text \<open>
  C3, amended. When the decision engine answers that a source unit need not be recompiled
  and the object file does not exist, the cache layer runs the stage below on the event
  marked as not a cache hit, in the state whose store has the hit counter one higher: the
  decision engine counted the hit before the layer looked for the object file. With the
  compile stage below, whenever the layer returns, the event is not marked a cache hit, the
  store's hit counter is one higher than before the layer ran and its miss counter is what
  it was.
\<close>

theorem cache_layer_downgrade_counts_hit:
  assumes d: "user_data event = Some data"
      and s: "event_source data = Some source"
      and h: "\<not> is_header source"
      and c: "bs_cache st = Some cache"
      and k: "\<not> fst (build_cache_needs_recompilation (bs_fs st) cache source
                        (event_object_path data))"
      and o: "\<not> file_exists_cache (bs_fs st) (event_object_path data)"
      and r: "cache_middleware_execute now (compile_event_execute sh) event st
                = Some (result, event', st')"
  shows "cache_middleware_execute now (compile_event_execute sh) event st
           = compile_below now (compile_event_execute sh) source data event
               (st\<lparr>bs_cache := Some (cache\<lparr>hits := hits cache + 1\<rparr>)\<rparr>)
         \<and> map_option cache_hit (user_data event') = Some False
         \<and> map_option hits (bs_cache st') = Some (hits cache + 1)
         \<and> map_option misses (bs_cache st') = Some (misses cache)"
proof -
  have e: "cache_middleware_execute now (compile_event_execute sh) event st
             = compile_below now (compile_event_execute sh) source data event
                 (st\<lparr>bs_cache := Some (cache\<lparr>hits := hits cache + 1\<rparr>)\<rparr>)"
    unfolding cache_middleware_execute_def
    by (simp add: d s h c o hit_skip_store [OF k])
  have "map_option hits (bs_cache st') = Some (hits (cache\<lparr>hits := hits cache + 1\<rparr>))
        \<and> map_option misses (bs_cache st') = Some (misses (cache\<lparr>hits := hits cache + 1\<rparr>))
        \<and> map_option cache_hit (user_data event') = Some False"
    by (rule compile_below_counters [OF r [unfolded e] s h]) simp
  with e show ?thesis by simp
qed

theorem cache_layer_downgrade_counts_hit_witness:
  "\<not> fst (build_cache_needs_recompilation (bs_fs s5_state) (s2_store [s2_entry 1000] 0 0)
            s2_main_unit ''proj/build/main.o'')
   \<and> \<not> file_exists_cache (bs_fs s5_state) ''proj/build/main.o''
   \<and> cache_middleware_execute 2000 (compile_event_execute s2_shell) (s2_main_event False)
         s5_state
       = Some (event_result_success, s2_main_event False,
               s2_compiled_state [s2_entry 2000] 1 0 s5_state)
   \<and> map_option hits (bs_cache (s2_compiled_state [s2_entry 2000] 1 0 s5_state)) = Some 1
   \<and> map_option misses (bs_cache (s2_compiled_state [s2_entry 2000] 1 0 s5_state)) = Some 0"
proof -
  have l: "cache_middleware_execute 2000 (compile_event_execute s2_shell) (s2_main_event False)
             s5_state
           = Some (event_result_success, s2_main_event False,
                   s2_compiled_state [s2_entry 2000] 1 0 s5_state)"
    using s5_state_layer by simp
  have k: "\<not> fst (build_cache_needs_recompilation (bs_fs s5_state)
                    (s2_store [s2_entry 1000] 0 0) s2_main_unit
                    (event_object_path (s2_main_data False)))"
    using s5_state_hit_skip by (simp add: s2_event_data)
  have o: "\<not> file_exists_cache (bs_fs s5_state) (event_object_path (s2_main_data False))"
    using s5_state_no_object by (simp add: s2_event_data)
  have "map_option hits (bs_cache (s2_compiled_state [s2_entry 2000] 1 0 s5_state))
          = Some (hits (s2_store [s2_entry 1000] 0 0) + 1)
        \<and> map_option misses (bs_cache (s2_compiled_state [s2_entry 2000] 1 0 s5_state))
          = Some (misses (s2_store [s2_entry 1000] 0 0))"
    using cache_layer_downgrade_counts_hit
            [OF s2_event_data(1) s2_event_data(2) _ s5_state_facts(2) k o l]
    by (simp add: s2_main_unit_fields)
  then show ?thesis
    using l s5_state_hit_skip s5_state_no_object by (simp add: s2_store_def)
qed

text \<open>
  C3, as stated, fails. In scenario S5 (first build, build directory removed, rebuild with
  unchanged sources) the first build ends with the hit counter 0, and the rebuild, whose
  store starts with fresh counters, ends with the hit counter 1 and the miss counter 0.
\<close>

theorem rebuild_after_clean_counts_hit:
  "map_option return_code s5_rebuild = Some 0
   \<and> map_option hits (Option.bind s2_first_build final_cache) = Some 0
   \<and> map_option hits (Option.bind s5_rebuild final_cache) = Some 1
   \<and> map_option misses (Option.bind s5_rebuild final_cache) = Some 0"
  by (simp add: s5_rebuild_eval s2_first_build_eval s2_store_def)

subsection \<open>Statistics of a second build\<close>

text \<open>
  C4, amended. In scenario S2 the compilation chain holds one compile event, that of
  \<^verbatim>\<open>proj/main.c\<close>: the two headers get no event. The second of two successive builds
  succeeds with \<open>compiled_files = 0\<close> and \<open>cached_files = 1\<close>, while
  \<open>total_files = 3\<close>.
\<close>

theorem second_build_counts_source_units:
  "build_compilation_chain s2_graph s2_config
     = Some (Inr (s2_sorted_graph, [s2_main_event False]))
   \<and> map_option return_code s4_second_build = Some 0
   \<and> Option.bind s4_second_build final_stats
       = Some \<lparr> total_files = 3, compiled_files = 0, cached_files = 1, failed_files = 0 \<rparr>"
  by (simp add: s4_second_build_eval s2_chain_eval s2_stats_def)

text \<open>
  C4, as stated, fails: the second build yields statistics, and its \<open>cached_files\<close>
  is not 3.
\<close>

theorem second_build_not_three_cached:
  "Option.bind s4_second_build final_stats \<noteq> None
   \<and> map_option cached_files (Option.bind s4_second_build final_stats) \<noteq> Some 3"
  by (simp add: s4_second_build_eval s2_stats_def)

end
